theory Spec2Isabelle
  imports Complex_Main
begin

section \<open>Common conventions\<close>

text \<open>
  Python floats are modelled by \<^typ>\<open>real\<close> (exact arithmetic), Python's unbounded
  integers by \<^typ>\<open>int\<close> or \<^typ>\<open>nat\<close>, a \<open>str\<close> by \<^typ>\<open>string\<close>.
  An input file is the list of the items read from it (decoded capture records, or text
  lines) together with the way the read ended; a path that cannot be opened is
  \<open>Missing\<close>.
\<close>

datatype read_end = Eof | Raised

datatype 'a trace_file = Missing | Stream "'a list" read_end

text \<open>Python's \<open>max(xs)\<close> and \<open>min(xs)\<close> on a non-empty list: a left-to-right scan.\<close>

definition py_max :: "real list \<Rightarrow> real" where
  "py_max xs = fold max (tl xs) (hd xs)"

definition py_min :: "real list \<Rightarrow> real" where
  "py_min xs = fold min (tl xs) (hd xs)"

section \<open>PacketTraceParser: \<open>parse_pcap_metrics\<close> of main.py\<close>

text \<open>
  What the loop reads of a decoded record: \<open>float(pkt.sniff_timestamp)\<close> (\<open>None\<close> when
  the conversion raises), \<open>hasattr(pkt, 'ipv6')\<close>, \<open>hasattr(pkt, 'icmpv6')\<close> and, of the
  icmpv6 layer, its \<open>type\<close> attribute: absent (\<open>getattr\<close> then gives 0), not convertible
  by \<open>int\<close> (the conversion raises), or a number.
\<close>

datatype icmp_type = TypeAbsent | TypeUndecodable | TypeCode int

record packet =
  sniff_timestamp :: "real option"
  has_ipv6 :: bool
  icmpv6 :: "icmp_type option"

record pcap_state =
  send_times :: "real list"
  recv_times :: "real list"
  sent :: nat
  received :: nat

record pcap_metrics =
  PDR :: real
  Average_End_to_End_Delay :: real
  Throughput :: real

definition pcap_init :: pcap_state where
  "pcap_init = \<lparr>send_times = [], recv_times = [], sent = 0, received = 0\<rparr>"

definition pcap_fallback :: pcap_metrics where
  "pcap_fallback = \<lparr>PDR = 0, Average_End_to_End_Delay = 0, Throughput = 0\<rparr>"

text \<open>\<open>int(getattr(pkt.icmpv6, 'type', 0))\<close>; \<open>None\<close> when \<open>int\<close> raises.\<close>

fun icmp_type_int :: "icmp_type \<Rightarrow> int option" where
  "icmp_type_int TypeAbsent = Some 0"
| "icmp_type_int TypeUndecodable = None"
| "icmp_type_int (TypeCode c) = Some c"

text \<open>
  The body of \<open>for pkt in cap\<close>. An exception inside the inner \<open>try\<close> leaves the
  loop body at that point and keeps what was already updated: a record whose type
  cannot be converted has been counted as sent.
\<close>

definition pcap_step :: "pcap_state \<Rightarrow> packet \<Rightarrow> pcap_state" where
  "pcap_step st pkt =
     (case sniff_timestamp pkt of
        None \<Rightarrow> st
      | Some t \<Rightarrow>
          if has_ipv6 pkt \<or> icmpv6 pkt \<noteq> None then
            (let st1 = st\<lparr>sent := sent st + 1, send_times := send_times st @ [t]\<rparr> in
             case icmpv6 pkt of
               None \<Rightarrow> st1
             | Some ty \<Rightarrow>
                 (case icmp_type_int ty of
                    None \<Rightarrow> st1
                  | Some c \<Rightarrow>
                      if c \<in> set [129, 2, 155]
                      then st1\<lparr>received := received st1 + 1,
                               recv_times := recv_times st1 @ [t]\<rparr>
                      else st1))
          else st)"

definition pcap_scan :: "packet list \<Rightarrow> pcap_state" where
  "pcap_scan pkts = foldl pcap_step pcap_init pkts"

definition pcap_pdr :: "pcap_state \<Rightarrow> real" where
  "pcap_pdr st = (if sent st > 0 then real (received st) / real (sent st) * 100 else 0)"

definition pcap_ae2ed :: "pcap_state \<Rightarrow> real" where
  "pcap_ae2ed st =
     (if recv_times st \<noteq> []
      then (sum_list (recv_times st) - sum_list (take (length (recv_times st)) (send_times st)))
             / real (length (recv_times st)) * 1000
      else 0)"

definition pcap_duration :: "pcap_state \<Rightarrow> real" where
  "pcap_duration st =
     (if recv_times st \<noteq> [] \<and> send_times st \<noteq> []
      then py_max (recv_times st @ send_times st) - py_min (recv_times st @ send_times st)
      else 1)"

definition pcap_throughput :: "pcap_state \<Rightarrow> real" where
  "pcap_throughput st =
     (if pcap_duration st > 0 then real (received st) / pcap_duration st else 0)"

fun parse_pcap_metrics :: "packet trace_file \<Rightarrow> pcap_metrics" where
  "parse_pcap_metrics Missing = pcap_fallback"
| "parse_pcap_metrics (Stream pkts Raised) = pcap_fallback"
| "parse_pcap_metrics (Stream pkts Eof) =
     (let st = pcap_scan pkts in
      \<lparr>PDR = pcap_pdr st, Average_End_to_End_Delay = pcap_ae2ed st,
       Throughput = pcap_throughput st\<rparr>)"

text \<open>The events a record contributes, read off the loop body.\<close>

definition send_event :: "packet \<Rightarrow> real option" where
  "send_event pkt =
     (case sniff_timestamp pkt of
        None \<Rightarrow> None
      | Some t \<Rightarrow> if has_ipv6 pkt \<or> icmpv6 pkt \<noteq> None then Some t else None)"

definition recv_event :: "packet \<Rightarrow> real option" where
  "recv_event pkt =
     (case (sniff_timestamp pkt, icmpv6 pkt) of
        (Some t, Some (TypeCode c)) \<Rightarrow> if c = 129 \<or> c = 2 \<or> c = 155 then Some t else None
      | _ \<Rightarrow> None)"

text \<open>Two records for concrete captures: a data packet, and an echo reply (type 129).\<close>

definition plain_pkt :: "real \<Rightarrow> packet" where
  "plain_pkt t = \<lparr>sniff_timestamp = Some t, has_ipv6 = True, icmpv6 = None\<rparr>"

definition reply_pkt :: "real \<Rightarrow> packet" where
  "reply_pkt t = \<lparr>sniff_timestamp = Some t, has_ipv6 = False, icmpv6 = Some (TypeCode 129)\<rparr>"

section \<open>Text: characters, substrings, regular expressions\<close>

text \<open>
  A character is its code point; the tables below are Python's for the code points
  0 to 255 (\<open>str.isspace\<close> and \<open>\s\<close>; \<open>\d\<close>; \<open>\w\<close>; \<open>str.lower\<close>).
\<close>

definition char_code :: "char \<Rightarrow> nat" where
  "char_code c = of_char c"

definition NL :: char where
  "NL = CHR 0x0A"

definition is_digit :: "char \<Rightarrow> bool" where
  "is_digit c = (48 \<le> char_code c \<and> char_code c \<le> 57)"

definition is_space :: "char \<Rightarrow> bool" where
  "is_space c = (let n = char_code c in
     (9 \<le> n \<and> n \<le> 13) \<or> (28 \<le> n \<and> n \<le> 32) \<or> n = 133 \<or> n = 160)"

definition is_word :: "char \<Rightarrow> bool" where
  "is_word c = (let n = char_code c in
     (48 \<le> n \<and> n \<le> 57) \<or> (65 \<le> n \<and> n \<le> 90) \<or> n = 95 \<or> (97 \<le> n \<and> n \<le> 122)
     \<or> n \<in> set [170, 178, 179, 181, 185, 186, 188, 189, 190]
     \<or> (192 \<le> n \<and> n \<noteq> 215 \<and> n \<noteq> 247))"

definition py_lower :: "char \<Rightarrow> char" where
  "py_lower c = (let n = char_code c in
     if (65 \<le> n \<and> n \<le> 90) \<or> (192 \<le> n \<and> n \<le> 222 \<and> n \<noteq> 215)
     then char_of (n + 32) else c)"

text \<open>\<open>needle in hay\<close> on strings.\<close>

fun startswith :: "string \<Rightarrow> string \<Rightarrow> bool" where
  "startswith hay [] = True"
| "startswith [] (n # ns) = False"
| "startswith (h # hs) (n # ns) = (h = n \<and> startswith hs ns)"

fun contains :: "string \<Rightarrow> string \<Rightarrow> bool" where
  "contains needle [] = (needle = [])"
| "contains needle (h # hs) = (startswith (h # hs) needle \<or> contains needle hs)"

text \<open>\<open>int(s)\<close> on a string of ASCII digits.\<close>

definition int_of_digits :: "string \<Rightarrow> nat" where
  "int_of_digits ds = foldl (\<lambda>n c. 10 * n + (char_code c - 48)) 0 ds"

text \<open>
  \<open>float(s)\<close> on a string of the shape \<open>\d+\.?\d*\<close> (what the patterns below capture):
  the decimal number written there.
\<close>

definition float_of_decimal :: "string \<Rightarrow> real" where
  "float_of_decimal s =
     (let ip = takeWhile (\<lambda>c. c \<noteq> CHR ''.'') s;
          fp = drop 1 (dropWhile (\<lambda>c. c \<noteq> CHR ''.'') s)
      in real (int_of_digits ip) + real (int_of_digits fp) / 10 ^ length fp)"

text \<open>
  The fragment of Python's \<open>re\<close> syntax the sources use. \<open>Star\<close> is the greedy star of a
  one-character class; \<open>Group n\<close> is the n-th capturing group.
\<close>

datatype char_class = Digit | Space | AnyChar | OneOf "char list"

fun in_class :: "char_class \<Rightarrow> char \<Rightarrow> bool" where
  "in_class Digit c = is_digit c"
| "in_class Space c = is_space c"
| "in_class AnyChar c = (c \<noteq> NL)"
| "in_class (OneOf cs) c = (c \<in> set cs)"

datatype regex =
    Eps
  | Lit char
  | Cls char_class
  | Star char_class
  | Opt regex
  | Then regex regex
  | Or regex regex
  | WordBoundary
  | Group nat regex

text \<open>
  A matcher configuration: the character before the current position (for \<open>\b\<close>), the
  input left, and the groups captured so far. \<open>rmatch\<close> lists the configurations a
  backtracking matcher reaches from one, in the order it tries them (greedy first), so
  the match Python reports is the head of the list. The flag is \<open>re.I\<close>.
\<close>

type_synonym config = "char option \<times> string \<times> (nat \<times> string) list"

fun star_ends :: "char_class \<Rightarrow> char option \<Rightarrow> string \<Rightarrow> (char option \<times> string) list" where
  "star_ends cc p [] = [(p, [])]"
| "star_ends cc p (c # cs) =
     (if in_class cc c then star_ends cc (Some c) cs @ [(p, c # cs)] else [(p, c # cs)])"

definition word_at :: "char option \<Rightarrow> bool" where
  "word_at p = (case p of None \<Rightarrow> False | Some c \<Rightarrow> is_word c)"

fun next_char :: "string \<Rightarrow> char option" where
  "next_char [] = None"
| "next_char (c # cs) = Some c"

fun rmatch :: "bool \<Rightarrow> regex \<Rightarrow> config \<Rightarrow> config list" where
  "rmatch ic Eps cfg = [cfg]"
| "rmatch ic (Lit a) (p, s, g) =
     (case s of
        [] \<Rightarrow> []
      | c # cs \<Rightarrow>
          if (if ic then py_lower c = py_lower a else c = a) then [(Some c, cs, g)] else [])"
| "rmatch ic (Cls cc) (p, s, g) =
     (case s of [] \<Rightarrow> [] | c # cs \<Rightarrow> if in_class cc c then [(Some c, cs, g)] else [])"
| "rmatch ic (Star cc) (p, s, g) = map (\<lambda>(p', s'). (p', s', g)) (star_ends cc p s)"
| "rmatch ic (Opt r) cfg = rmatch ic r cfg @ [cfg]"
| "rmatch ic (Then r1 r2) cfg = concat (map (rmatch ic r2) (rmatch ic r1 cfg))"
| "rmatch ic (Or r1 r2) cfg = rmatch ic r1 cfg @ rmatch ic r2 cfg"
| "rmatch ic WordBoundary (p, s, g) =
     (if word_at p \<noteq> word_at (next_char s) then [(p, s, g)] else [])"
| "rmatch ic (Group n r) (p, s, g) =
     map (\<lambda>(p', s', g'). (p', s', (n, take (length s - length s') s) # g'))
       (rmatch ic r (p, s, g))"

text \<open>\<open>pattern.search(s)\<close>: the first start position, left to right, with a match.\<close>

fun search_from :: "bool \<Rightarrow> regex \<Rightarrow> char option \<Rightarrow> string \<Rightarrow> config option" where
  "search_from ic r p [] = (case rmatch ic r (p, [], []) of [] \<Rightarrow> None | cfg # _ \<Rightarrow> Some cfg)"
| "search_from ic r p (c # cs) =
     (case rmatch ic r (p, c # cs, []) of
        [] \<Rightarrow> search_from ic r (Some c) cs
      | cfg # _ \<Rightarrow> Some cfg)"

definition re_search :: "bool \<Rightarrow> regex \<Rightarrow> string \<Rightarrow> config option" where
  "re_search ic r s = search_from ic r None s"

text \<open>\<open>re.match(pattern, s)\<close>: a match at the start of the string only.\<close>

definition re_match :: "bool \<Rightarrow> regex \<Rightarrow> string \<Rightarrow> config option" where
  "re_match ic r s = (case rmatch ic r (None, s, []) of [] \<Rightarrow> None | cfg # _ \<Rightarrow> Some cfg)"

definition group_text :: "config \<Rightarrow> nat \<Rightarrow> string option" where
  "group_text cfg n = map_of (snd (snd cfg)) n"

definition str :: "string \<Rightarrow> regex" where
  "str s = foldr (\<lambda>c r. Then (Lit c) r) s Eps"

definition seqs :: "regex list \<Rightarrow> regex" where
  "seqs rs = foldr Then rs Eps"

definition OneOrMore :: "char_class \<Rightarrow> regex" where
  "OneOrMore cc = Then (Cls cc) (Star cc)"

text \<open>
  For statements about matching: the character before a position reached by reading
  \<open>s\<close>, equality of strings up to case, and "from the configuration \<open>(p, s)\<close> the
  matcher can reach \<open>(p', s')\<close>", whatever the groups hold.
\<close>

definition last_char :: "char option \<Rightarrow> string \<Rightarrow> char option" where
  "last_char p s = (if s = [] then p else Some (last s))"

definition ci_eq :: "string \<Rightarrow> string \<Rightarrow> bool" where
  "ci_eq x y = (map py_lower x = map py_lower y)"

definition can :: "bool \<Rightarrow> regex \<Rightarrow> char option \<Rightarrow> string \<Rightarrow> char option \<Rightarrow> string \<Rightarrow> bool" where
  "can ic r p s p' s' = (\<forall>g. \<exists>g'. (p', s', g') \<in> set (rmatch ic r (p, s, g)))"

section \<open>LogTraceParser: \<open>parse_log_metrics\<close> of main.py\<close>

text \<open>\<^verbatim>\<open>ETX_PATTERN = re.compile(r'ETX\s*[:=]\s*(\d+\.?\d*)', re.I)\<close>\<close>

definition ETX_PATTERN :: regex where
  "ETX_PATTERN =
     seqs [str ''ETX'', Star Space, Cls (OneOf '':=''), Star Space,
           Group 1 (seqs [OneOrMore Digit, Opt (Lit CHR ''.''), Star Digit])]"

text \<open>\<^verbatim>\<open>RPL_CTRL_PATTERN = re.compile(r'(\bRPL\s*(DIO|DAO|DIS)\b|\b(DIO|DAO|DIS)\b|icmpv6.*(rpl|155))', re.I)\<close>\<close>

definition RPL_CTRL_PATTERN :: regex where
  "RPL_CTRL_PATTERN =
     Group 1
       (Or (seqs [WordBoundary, str ''RPL'', Star Space,
                  Group 2 (Or (str ''DIO'') (Or (str ''DAO'') (str ''DIS''))), WordBoundary])
       (Or (seqs [WordBoundary,
                  Group 3 (Or (str ''DIO'') (Or (str ''DAO'') (str ''DIS''))), WordBoundary])
           (seqs [str ''icmpv6'', Star AnyChar, Group 4 (Or (str ''rpl'') (str ''155''))])))"

text \<open>\<^verbatim>\<open>ENERGY_PATTERN = re.compile(r'Total\s*energy:\s*(\d+\.?\d*)', re.I)\<close>\<close>

definition ENERGY_PATTERN :: regex where
  "ENERGY_PATTERN =
     seqs [str ''Total'', Star Space, str ''energy:'', Star Space,
           Group 1 (seqs [OneOrMore Digit, Opt (Lit CHR ''.''), Star Digit])]"

text \<open>\<^verbatim>\<open>r'Node id is set to (\d+)'\<close>, searched without flags.\<close>

definition NODE_ID_PATTERN :: regex where
  "NODE_ID_PATTERN = seqs [str ''Node id is set to '', Group 1 (OneOrMore Digit)]"

text \<open>The four extractors of the loop body, each on one line.\<close>

definition node_id_match :: "string \<Rightarrow> string option" where
  "node_id_match line =
     (if contains ''Node id is set to'' line
      then Option.bind (re_search False NODE_ID_PATTERN line) (\<lambda>m. group_text m 1)
      else None)"

definition etx_match :: "string \<Rightarrow> string option" where
  "etx_match line = Option.bind (re_search True ETX_PATTERN line) (\<lambda>m. group_text m 1)"

definition ctrl_match :: "string \<Rightarrow> bool" where
  "ctrl_match line = (re_search True RPL_CTRL_PATTERN line \<noteq> None)"

definition energy_match :: "string \<Rightarrow> string option" where
  "energy_match line = Option.bind (re_search True ENERGY_PATTERN line) (\<lambda>m. group_text m 1)"

definition tx_rx_line :: "string \<Rightarrow> bool" where
  "tx_rx_line line = (contains ''TX'' line \<and> contains ''RX'' line)"

record log_state =
  energy_score :: real
  etx_values :: "real list"
  ctrl_count :: nat
  node_ids :: "string set"

record log_metrics =
  Overhead_Packets :: real
  Energy_Consumption :: real
  Average_ETX :: real

definition log_init :: log_state where
  "log_init = \<lparr>energy_score = 0, etx_values = [], ctrl_count = 0, node_ids = {}\<rparr>"

definition log_fallback :: log_metrics where
  "log_fallback = \<lparr>Overhead_Packets = 0, Energy_Consumption = 0, Average_ETX = 1\<rparr>"

definition log_step :: "log_state \<Rightarrow> string \<Rightarrow> log_state" where
  "log_step st line =
     (let st1 = (case node_id_match line of
                   None \<Rightarrow> st
                 | Some i \<Rightarrow> st\<lparr>node_ids := insert i (node_ids st)\<rparr>);
          st2 = (case etx_match line of
                   None \<Rightarrow> st1
                 | Some x \<Rightarrow> st1\<lparr>etx_values := etx_values st1 @ [float_of_decimal x]\<rparr>);
          st3 = (if ctrl_match line then st2\<lparr>ctrl_count := ctrl_count st2 + 1\<rparr> else st2)
      in case energy_match line of
           Some e \<Rightarrow> st3\<lparr>energy_score := float_of_decimal e\<rparr>
         | None \<Rightarrow>
             if tx_rx_line line then st3\<lparr>energy_score := energy_score st3 + 1\<rparr> else st3)"

definition log_scan :: "string list \<Rightarrow> log_state" where
  "log_scan lines = foldl log_step log_init lines"

definition log_avg_etx :: "log_state \<Rightarrow> real" where
  "log_avg_etx st =
     (if etx_values st \<noteq> [] then sum_list (etx_values st) / real (length (etx_values st))
      else 1)"

definition log_node_count :: "log_state \<Rightarrow> nat" where
  "log_node_count st = max 1 (card (node_ids st))"

definition log_normalized_ctrl :: "log_state \<Rightarrow> real" where
  "log_normalized_ctrl st = real (ctrl_count st) / real (log_node_count st)"

text \<open>
  \<open>open\<close> failing, or the read raising at any later line, is caught by the one
  \<open>except Exception\<close> around the loop.
\<close>

fun parse_log_metrics :: "string trace_file \<Rightarrow> log_metrics" where
  "parse_log_metrics Missing = log_fallback"
| "parse_log_metrics (Stream lines Raised) = log_fallback"
| "parse_log_metrics (Stream lines Eof) =
     (let st = log_scan lines in
      \<lparr>Overhead_Packets = log_normalized_ctrl st, Energy_Consumption = energy_score st,
       Average_ETX = log_avg_etx st\<rparr>)"

section \<open>EventCorrelator: \<open>parse_log\<close> of omerw.py\<close>

text \<open>\<^verbatim>\<open>re.match(r"(\d+):(\d+)\.(\d+)", line)\<close>: the timestamp mm:ss.mmm at the start of a line.\<close>

definition TS_PATTERN :: regex where
  "TS_PATTERN =
     seqs [Group 1 (OneOrMore Digit), Lit CHR '':'', Group 2 (OneOrMore Digit), Lit CHR ''.'',
           Group 3 (OneOrMore Digit)]"

definition line_timestamp :: "string \<Rightarrow> int option" where
  "line_timestamp line =
     (case re_match False TS_PATTERN line of
        None \<Rightarrow> None
      | Some m \<Rightarrow>
          (case (group_text m 1, group_text m 2, group_text m 3) of
             (Some g1, Some g2, Some g3) \<Rightarrow>
               (let minutes = int (int_of_digits g1);
                    seconds = int (int_of_digits g2);
                    millis = int (int_of_digits g3)
                in Some ((minutes * 60 + seconds) * 1000 + millis))
           | _ \<Rightarrow> None))"

definition is_sent_line :: "string \<Rightarrow> bool" where
  "is_sent_line line = contains ''broadcast message sent'' (map py_lower line)"

definition is_received_line :: "string \<Rightarrow> bool" where
  "is_received_line line = contains ''broadcast message received'' (map py_lower line)"

text \<open>\<^verbatim>\<open>re.search(r"\sP\s", line)\<close>\<close>

definition POWERTRACE_PATTERN :: regex where
  "POWERTRACE_PATTERN = seqs [Cls Space, Lit CHR ''P'', Cls Space]"

text \<open>\<^verbatim>\<open>re.findall(r"\d+", line)\<close>: the maximal runs of digits, left to right.\<close>

fun findall_digits :: "string \<Rightarrow> string \<Rightarrow> string list" where
  "findall_digits cur [] = (if cur = [] then [] else [cur])"
| "findall_digits cur (c # cs) =
     (if is_digit c then findall_digits (cur @ [c]) cs
      else if cur = [] then findall_digits [] cs
      else cur # findall_digits [] cs)"

text \<open>\<open>s.split()\<close>: the maximal runs of non-whitespace (\<open>strip\<close> before it changes nothing).\<close>

fun py_split :: "string \<Rightarrow> string \<Rightarrow> string list" where
  "py_split cur [] = (if cur = [] then [] else [cur])"
| "py_split cur (c # cs) =
     (if \<not> is_space c then py_split (cur @ [c]) cs
      else if cur = [] then py_split [] cs
      else cur # py_split [] cs)"

definition py_strip :: "string \<Rightarrow> string" where
  "py_strip s = rev (dropWhile is_space (rev (dropWhile is_space s)))"

text \<open>
  A \<open>dict\<close> keeps its keys in insertion order; assigning to a key that is present keeps
  its place, assigning to a new key appends.
\<close>

definition dict_set :: "('k \<times> 'v) list \<Rightarrow> 'k \<Rightarrow> 'v \<Rightarrow> ('k \<times> 'v) list" where
  "dict_set d k v =
     (if k \<in> fst ` set d then map (\<lambda>(k', v'). if k' = k then (k', v) else (k', v')) d
      else d @ [(k, v)])"

definition dict_values :: "('k \<times> 'v) list \<Rightarrow> 'v list" where
  "dict_values d = map snd d"

record ec_state =
  sent_packets :: nat
  received_packets :: nat
  delays :: "int list"
  energy_consumption :: int
  etx_values_ec :: "real list"
  first_time :: "int option"
  last_time :: "int option"
  send_times_ec :: "(nat \<times> int) list"

record ec_metrics =
  ec_PDR :: real
  ec_Average_End_to_End_Delay :: real
  ec_Overhead_Packets :: int
  ec_Energy_Consumption :: int
  ec_Throughput :: real
  ec_Average_ETX :: real

datatype py_error = OSError | ValueError | OverflowError | ZeroDivisionError

text \<open>
  Where the range of a float matters. A number of magnitude at least
  \<open>2^1024 - 2^970\<close> rounds to no finite double. The true division \<open>a / b\<close> of two
  \<open>int\<close>s raises ZeroDivisionError for \<open>b = 0\<close> and OverflowError when the
  quotient is that large; converting an \<open>int\<close> to a float (as \<open>int / float\<close> and
  \<open>float / int\<close> do first) raises OverflowError likewise. A float operation whose
  result leaves the range does not raise (Python gives \<open>inf\<close>; the value here is the
  exact one).
\<close>

definition float_overflow :: "real \<Rightarrow> bool" where
  "float_overflow x = (2 ^ 1024 - 2 ^ 970 \<le> \<bar>x\<bar>)"

definition int_truediv :: "int \<Rightarrow> int \<Rightarrow> py_error + real" where
  "int_truediv a b =
     (if b = 0 then Inl ZeroDivisionError
      else if float_overflow (of_int a / of_int b) then Inl OverflowError
      else Inr (of_int a / of_int b))"

definition int_to_float :: "int \<Rightarrow> py_error + real" where
  "int_to_float a = (if float_overflow (of_int a) then Inl OverflowError else Inr (of_int a))"

text \<open>
  \<open>int(s)\<close> on a string of digits raises ValueError when the string has more digits
  than the interpreter's limit for such conversions, 4300 unless it is reconfigured
  (leading zeros count).
\<close>

definition int_max_str_digits :: nat where
  "int_max_str_digits = 4300"

definition int_raises :: "string \<Rightarrow> bool" where
  "int_raises s = (int_max_str_digits < length s)"

text \<open>Sequencing: the first exception ends the computation.\<close>

definition and_then :: "'e + 'a \<Rightarrow> ('a \<Rightarrow> 'e + 'b) \<Rightarrow> 'e + 'b" where
  "and_then x f = (case x of Inl e \<Rightarrow> Inl e | Inr a \<Rightarrow> f a)"

definition ec_init :: ec_state where
  "ec_init = \<lparr>sent_packets = 0, received_packets = 0, delays = [], energy_consumption = 0,
     etx_values_ec = [], first_time = None, last_time = None, send_times_ec = []\<rparr>"

definition ec_timestamp_step :: "int option \<Rightarrow> ec_state \<Rightarrow> ec_state" where
  "ec_timestamp_step ts st =
     (case ts of
        None \<Rightarrow> st
      | Some t \<Rightarrow>
          st\<lparr>first_time := (if first_time st = None then Some t else first_time st),
             last_time := Some t\<rparr>)"

definition ec_sent_step :: "string \<Rightarrow> int option \<Rightarrow> ec_state \<Rightarrow> ec_state" where
  "ec_sent_step line ts st =
     (if is_sent_line line then
        (let st1 = st\<lparr>sent_packets := sent_packets st + 1\<rparr> in
         case ts of
           None \<Rightarrow> st1
         | Some t \<Rightarrow> st1\<lparr>send_times_ec := dict_set (send_times_ec st1) (sent_packets st1) t\<rparr>)
      else st)"

definition ec_received_step :: "string \<Rightarrow> int option \<Rightarrow> ec_state \<Rightarrow> ec_state" where
  "ec_received_step line ts st =
     (if is_received_line line then
        (let st1 = st\<lparr>received_packets := received_packets st + 1\<rparr> in
         case ts of
           None \<Rightarrow> st1
         | Some t \<Rightarrow>
             if send_times_ec st1 \<noteq> []
             then st1\<lparr>delays := delays st1 @ [t - last (dict_values (send_times_ec st1))]\<rparr>
             else st1)
      else st)"

definition ec_energy_step :: "string \<Rightarrow> ec_state \<Rightarrow> ec_state" where
  "ec_energy_step line st =
     (if re_search False POWERTRACE_PATTERN line \<noteq> None then
        (let numbers = findall_digits [] line in
         if length numbers > 5 then
           (let tx = int (int_of_digits (numbers ! 4));
                listen = int (int_of_digits (numbers ! 5))
            in st\<lparr>energy_consumption := energy_consumption st + (tx + listen)\<rparr>)
         else st)
      else st)"

text \<open>
  \<open>flt\<close> is Python's built-in \<open>float\<close> on a token, \<open>None\<close> when it raises; the bare
  \<open>except\<close> also covers an empty token list.
\<close>

definition ec_etx_sample :: "(string \<Rightarrow> real option) \<Rightarrow> string \<Rightarrow> real option" where
  "ec_etx_sample flt line =
     (if contains ''ETX'' line then
        (case py_split [] (py_strip line) of [] \<Rightarrow> None | toks \<Rightarrow> flt (last toks))
      else None)"

definition ec_etx_step :: "(string \<Rightarrow> real option) \<Rightarrow> string \<Rightarrow> ec_state \<Rightarrow> ec_state" where
  "ec_etx_step flt line st =
     (case ec_etx_sample flt line of
        None \<Rightarrow> st
      | Some etx \<Rightarrow> st\<lparr>etx_values_ec := etx_values_ec st @ [etx]\<rparr>)"

definition ec_step :: "(string \<Rightarrow> real option) \<Rightarrow> ec_state \<Rightarrow> string \<Rightarrow> ec_state" where
  "ec_step flt st line =
     (let ts = line_timestamp line in
      ec_etx_step flt line
        (ec_energy_step line
          (ec_received_step line ts
            (ec_sent_step line ts
              (ec_timestamp_step ts st)))))"

definition ec_scan :: "(string \<Rightarrow> real option) \<Rightarrow> string list \<Rightarrow> ec_state" where
  "ec_scan flt lines = foldl (ec_step flt) ec_init lines"

text \<open>\<open>round(x, 2)\<close>: to the nearest hundredth, a tie to the even one.\<close>

definition round_half_even :: "real \<Rightarrow> int" where
  "round_half_even x =
     (let f = \<lfloor>x\<rfloor>; d = x - of_int f in
      if d < 1 / 2 then f else if d > 1 / 2 then f + 1 else if even f then f else f + 1)"

definition py_round2 :: "real \<Rightarrow> real" where
  "py_round2 x = of_int (round_half_even (x * 100)) / 100"

text \<open>
  The five quotients of the metrics computation, in the order of the source; both
  operands of the first three are \<open>int\<close>s.
  \<^verbatim>\<open>PDR = (received_packets / sent_packets * 100) if sent_packets > 0 else 0\<close>
\<close>

definition ec_pdr :: "ec_state \<Rightarrow> py_error + real" where
  "ec_pdr st =
     (if sent_packets st > 0
      then and_then (int_truediv (int (received_packets st)) (int (sent_packets st)))
             (\<lambda>q. Inr (q * 100))
      else Inr 0)"

text \<open>\<^verbatim>\<open>avg_delay = sum(delays) / len(delays) if delays else 0\<close>\<close>

definition ec_avg_delay :: "ec_state \<Rightarrow> py_error + real" where
  "ec_avg_delay st =
     (if delays st \<noteq> [] then int_truediv (sum_list (delays st)) (int (length (delays st)))
      else Inr 0)"

text \<open>
  \<^verbatim>\<open>duration = (last_time - first_time) / 1000 if (first_time and last_time) else 1\<close>:
  a timestamp of 0 counts as false, like \<open>None\<close>.
\<close>

definition ec_duration :: "ec_state \<Rightarrow> py_error + real" where
  "ec_duration st =
     (case first_time st of
        None \<Rightarrow> Inr 1
      | Some f \<Rightarrow>
          (case last_time st of
             None \<Rightarrow> Inr 1
           | Some l \<Rightarrow> if f \<noteq> 0 \<and> l \<noteq> 0 then int_truediv (l - f) 1000 else Inr 1))"

text \<open>
  \<^verbatim>\<open>throughput = received_packets / duration if duration > 0 else 0\<close>: the count is
  divided by the \<open>int\<close> 1 or converted to a float first, which fails for the same counts.
\<close>

definition ec_throughput :: "ec_state \<Rightarrow> real \<Rightarrow> py_error + real" where
  "ec_throughput st duration =
     (if duration > 0
      then and_then (int_to_float (int (received_packets st))) (\<lambda>r. Inr (r / duration))
      else Inr 0)"

text \<open>\<^verbatim>\<open>avg_etx = sum(etx_values) / len(etx_values) if etx_values else 0\<close>\<close>

definition ec_avg_etx :: "ec_state \<Rightarrow> py_error + real" where
  "ec_avg_etx st =
     (if etx_values_ec st \<noteq> []
      then and_then (int_to_float (int (length (etx_values_ec st))))
             (\<lambda>n. Inr (sum_list (etx_values_ec st) / n))
      else Inr 0)"

definition ec_metrics_of :: "ec_state \<Rightarrow> py_error + ec_metrics" where
  "ec_metrics_of st =
     and_then (ec_pdr st) (\<lambda>PDR'.
     and_then (ec_avg_delay st) (\<lambda>avg_delay.
     (let overhead_packets = int (sent_packets st) - int (received_packets st) in
      and_then (ec_duration st) (\<lambda>duration.
      and_then (ec_throughput st duration) (\<lambda>throughput.
      and_then (ec_avg_etx st) (\<lambda>avg_etx.
        Inr \<lparr>ec_PDR = py_round2 PDR',
             ec_Average_End_to_End_Delay = py_round2 avg_delay,
             ec_Overhead_Packets = overhead_packets,
             ec_Energy_Consumption = energy_consumption st,
             ec_Throughput = py_round2 throughput,
             ec_Average_ETX = py_round2 avg_etx\<rparr>))))))"

text \<open>
  The conversions of one line that are outside any \<open>try\<close>: the three groups of the
  timestamp and, on a powertrace line with more than five numbers, the fifth and the
  sixth. \<open>ec_step\<close> above computes with the converted values; this tells whether one
  of the conversions raises instead.
\<close>

definition ec_line_raises :: "string \<Rightarrow> bool" where
  "ec_line_raises line =
     ((case re_match False TS_PATTERN line of
         None \<Rightarrow> False
       | Some m \<Rightarrow>
           list_ex (\<lambda>n. case group_text m n of None \<Rightarrow> False | Some g \<Rightarrow> int_raises g)
             [1, 2, 3])
      \<or> (re_search False POWERTRACE_PATTERN line \<noteq> None
          \<and> (let numbers = findall_digits [] line in
              length numbers > 5 \<and> (int_raises (numbers ! 4) \<or> int_raises (numbers ! 5)))))"

text \<open>
  Nothing catches an exception here: a failing \<open>open\<close> or read (\<open>OSError\<close> stands
  for whatever it raised), a ValueError of a conversion during the scan, or an
  OverflowError of the metrics computation leaves \<open>parse_log\<close>.
\<close>

fun parse_log :: "(string \<Rightarrow> real option) \<Rightarrow> string trace_file \<Rightarrow> py_error + ec_metrics" where
  "parse_log flt Missing = Inl OSError"
| "parse_log flt (Stream lines e) =
     (if list_ex ec_line_raises lines then Inl ValueError
      else case e of
             Raised \<Rightarrow> Inl OSError
           | Eof \<Rightarrow> ec_metrics_of (ec_scan flt lines))"

text \<open>
  The timestamp of the most recently recorded send of a log: the last line that is a
  send and carries a timestamp.
\<close>

definition recorded_sends :: "string list \<Rightarrow> int list" where
  "recorded_sends lines =
     List.map_filter (\<lambda>l. if is_sent_line l then line_timestamp l else None) lines"

definition last_send_time :: "string list \<Rightarrow> int option" where
  "last_send_time lines =
     (case recorded_sends lines of [] \<Rightarrow> None | ts \<Rightarrow> Some (last ts))"

text \<open>
  The pairing as the specification words it, for comparison: a stack of outstanding
  sends; a receive pops the most recent one, and a receive that finds the stack empty
  gives no delay sample.
\<close>

fun spec_lifo_delays :: "int list \<Rightarrow> string list \<Rightarrow> int list" where
  "spec_lifo_delays outstanding [] = []"
| "spec_lifo_delays outstanding (l # ls) =
     (let stack = (case (is_sent_line l, line_timestamp l) of
                     (True, Some t) \<Rightarrow> t # outstanding
                   | _ \<Rightarrow> outstanding)
      in if is_received_line l then
           (case (line_timestamp l, stack) of
              (Some t, s # rest) \<Rightarrow> (t - s) # spec_lifo_delays rest ls
            | _ \<Rightarrow> spec_lifo_delays stack ls)
         else spec_lifo_delays stack ls)"

text \<open>
  Every key of \<open>send_times\<close> is at most the running count of sends, so the next
  key \<open>sent_packets + 1\<close> is always new.
\<close>

definition keys_bounded :: "ec_state \<Rightarrow> bool" where
  "keys_bounded st = (\<forall>k \<in> fst ` set (send_times_ec st). k \<le> sent_packets st)"

text \<open>Concrete logs: a line as the file iteration yields it ends in a newline.\<close>

definition log_line :: "string \<Rightarrow> string" where
  "log_line s = s @ [NL]"

definition no_float :: "string \<Rightarrow> real option" where
  "no_float s = None"

definition lifo_log :: "string list" where
  "lifo_log =
     [log_line ''00:01.000 broadcast message sent'',
      log_line ''00:02.000 broadcast message received'',
      log_line ''00:03.000 broadcast message received'']"

definition backwards_log :: "string list" where
  "backwards_log =
     [log_line ''00:05.000 broadcast message sent'',
      log_line ''00:01.000 broadcast message received'']"

definition energy_log :: "string list" where
  "energy_log = [log_line ''Total energy: 5'', log_line ''TX RX'']"

definition energy_log2 :: "string list" where
  "energy_log2 =
     [log_line ''TX RX'', log_line ''total energy: 2.5'', log_line ''RX and TX'',
      log_line ''idle'']"

definition scenario_b_log :: "string list" where
  "scenario_b_log =
     [log_line ''Node id is set to 1'', log_line ''DIO'', log_line ''DAO'', log_line ''DIS'',
      log_line ''Node id is set to 2'', log_line ''RPL DIO'', log_line ''a DAO b'',
      log_line ''icmpv6 155'']"

section \<open>Properties of PacketTraceParser\<close>

lemma pcap_step_send_times:
  "send_times (pcap_step st pkt) =
     send_times st @ (case send_event pkt of None \<Rightarrow> [] | Some t \<Rightarrow> [t])"
  by (cases "icmpv6 pkt"; cases "sniff_timestamp pkt")
     (auto simp: pcap_step_def send_event_def Let_def split: option.splits)

lemma py_max_Max: assumes "xs \<noteq> []" shows "py_max xs = Max (set xs)"
proof (cases xs)
  case Nil
  then show ?thesis using assms by simp
next
  case (Cons a as)
  then show ?thesis using Max.set_eq_fold [of a as] by (simp add: py_max_def)
qed

lemma py_min_Min: assumes "xs \<noteq> []" shows "py_min xs = Min (set xs)"
proof (cases xs)
  case Nil
  then show ?thesis using assms by simp
next
  case (Cons a as)
  then show ?thesis using Min.set_eq_fold [of a as] by (simp add: py_min_def)
qed

lemma recv_event_send_event: "recv_event pkt = Some t \<Longrightarrow> send_event pkt = Some t"
  by (auto simp: recv_event_def send_event_def split: option.splits icmp_type.splits if_splits)

lemma pcap_step_recv_times:
  "recv_times (pcap_step st pkt) =
     recv_times st @ (case recv_event pkt of None \<Rightarrow> [] | Some t \<Rightarrow> [t])"
  by (cases "icmpv6 pkt"; cases "sniff_timestamp pkt")
     (auto simp: pcap_step_def recv_event_def Let_def split: option.splits icmp_type.splits)

lemma pcap_step_sent:
  "sent (pcap_step st pkt) = sent st + (case send_event pkt of None \<Rightarrow> 0 | Some t \<Rightarrow> 1)"
  by (cases "icmpv6 pkt"; cases "sniff_timestamp pkt")
     (auto simp: pcap_step_def send_event_def Let_def split: option.splits)

lemma pcap_step_received:
  "received (pcap_step st pkt) = received st + (case recv_event pkt of None \<Rightarrow> 0 | Some t \<Rightarrow> 1)"
  by (cases "icmpv6 pkt"; cases "sniff_timestamp pkt")
     (auto simp: pcap_step_def recv_event_def Let_def split: option.splits icmp_type.splits)

lemma map_filter_snoc:
  "List.map_filter f (xs @ [x]) = List.map_filter f xs @ (case f x of None \<Rightarrow> [] | Some y \<Rightarrow> [y])"
  by (simp add: List.map_filter_def split: option.splits)

lemma foldl_send_times:
  "send_times (foldl pcap_step st pkts) = send_times st @ List.map_filter send_event pkts"
  by (induction pkts rule: rev_induct)
     (simp_all add: pcap_step_send_times map_filter_snoc List.map_filter_simps)

lemma foldl_recv_times:
  "recv_times (foldl pcap_step st pkts) = recv_times st @ List.map_filter recv_event pkts"
  by (induction pkts rule: rev_induct)
     (simp_all add: pcap_step_recv_times map_filter_snoc List.map_filter_simps)

lemma foldl_sent:
  "sent (foldl pcap_step st pkts) = sent st + length (List.map_filter send_event pkts)"
  by (induction pkts rule: rev_induct)
     (simp_all add: pcap_step_sent map_filter_snoc List.map_filter_simps split: option.splits)

lemma foldl_received:
  "received (foldl pcap_step st pkts) = received st + length (List.map_filter recv_event pkts)"
  by (induction pkts rule: rev_induct)
     (simp_all add: pcap_step_received map_filter_snoc List.map_filter_simps split: option.splits)

lemma scan_send_times: "send_times (pcap_scan pkts) = List.map_filter send_event pkts"
  by (simp add: pcap_scan_def foldl_send_times pcap_init_def)

lemma scan_recv_times: "recv_times (pcap_scan pkts) = List.map_filter recv_event pkts"
  by (simp add: pcap_scan_def foldl_recv_times pcap_init_def)

lemma scan_sent: "sent (pcap_scan pkts) = length (List.map_filter send_event pkts)"
  by (simp add: pcap_scan_def foldl_sent pcap_init_def)

lemma scan_received: "received (pcap_scan pkts) = length (List.map_filter recv_event pkts)"
  by (simp add: pcap_scan_def foldl_received pcap_init_def)

lemma recv_le_send_length:
  "length (List.map_filter recv_event pkts) \<le> length (List.map_filter send_event pkts)"
proof (induction pkts)
  case Nil
  show ?case by (simp add: List.map_filter_simps)
next
  case (Cons p ps)
  show ?case
  proof (cases "recv_event p")
    case None
    with Cons show ?thesis
      by (simp add: List.map_filter_simps split: option.splits)
  next
    case (Some t)
    with Cons recv_event_send_event [OF Some] show ?thesis
      by (simp add: List.map_filter_simps)
  qed
qed

lemma received_le_sent: "received (pcap_scan pkts) \<le> sent (pcap_scan pkts)"
  by (simp add: scan_sent scan_received recv_le_send_length)

lemma pdr_bounds:
  assumes "received st \<le> sent st"
  shows "0 \<le> pcap_pdr st \<and> pcap_pdr st \<le> 100"
proof (cases "sent st > 0")
  case True
  have "real (received st) \<le> real (sent st)" using assms by simp
  then have "real (received st) / real (sent st) \<le> 1"
    using True by (simp add: divide_le_eq_1)
  then have "real (received st) / real (sent st) * 100 \<le> 1 * 100"
    by (rule mult_right_mono) simp
  moreover have "0 \<le> real (received st) / real (sent st) * 100" by simp
  ultimately show ?thesis using True by (simp add: pcap_pdr_def)
next
  case False
  then show ?thesis by (simp add: pcap_pdr_def)
qed

lemma duration_nonneg: "0 \<le> pcap_duration st"
proof (cases "recv_times st \<noteq> [] \<and> send_times st \<noteq> []")
  case True
  let ?xs = "recv_times st @ send_times st"
  have ne: "?xs \<noteq> []" using True by simp
  have "Min (set ?xs) \<le> Max (set ?xs)"
    using ne by (intro Min_le_iff [THEN iffD2]) (auto intro: Max_in)
  then show ?thesis using True ne by (simp add: pcap_duration_def py_max_Max py_min_Min)
next
  case False
  then show ?thesis by (auto simp: pcap_duration_def)
qed

lemma recv_imp_send_nonempty:
  "recv_times (pcap_scan pkts) \<noteq> [] \<Longrightarrow> send_times (pcap_scan pkts) \<noteq> []"
  using recv_le_send_length [of pkts] by (auto simp: scan_send_times scan_recv_times)

lemma sum_take_sorted:
  fixes f :: "'a \<Rightarrow> real"
  assumes "sorted (map f xs)"
  shows "sum_list (map f (take (length (filter P xs)) xs)) \<le> sum_list (map f (filter P xs))"
  using assms
proof (induction xs)
  case Nil
  show ?case by simp
next
  case (Cons x xs)
  let ?k = "length (filter P xs)"
  have srt: "sorted (map f xs)" and lb: "\<forall>y\<in>set xs. f x \<le> f y"
    using Cons.prems by auto
  have IH: "sum_list (map f (take ?k xs)) \<le> sum_list (map f (filter P xs))"
    using Cons.IH srt by simp
  show ?case
  proof (cases "P x")
    case True
    then show ?thesis using IH by simp
  next
    case False
    show ?thesis
    proof (cases ?k)
      case 0
      then show ?thesis using False by simp
    next
      case (Suc j)
      have jlt: "j < length xs" using Suc length_filter_le [of P xs] by simp
      have tk: "take (Suc j) xs = take j xs @ [xs ! j]"
        using jlt by (simp add: take_Suc_conv_app_nth)
      have "f x \<le> f (xs ! j)" using lb jlt by simp
      then have "f x + sum_list (map f (take j xs)) \<le> sum_list (map f (take (Suc j) xs))"
        by (simp add: tk)
      then show ?thesis using IH False Suc by simp
    qed
  qed
qed

lemma plain_events [simp]: "send_event (plain_pkt t) = Some t" "recv_event (plain_pkt t) = None"
  by (simp_all add: plain_pkt_def send_event_def recv_event_def)

lemma reply_events [simp]: "send_event (reply_pkt t) = Some t" "recv_event (reply_pkt t) = Some t"
  by (simp_all add: reply_pkt_def send_event_def recv_event_def)

subsection \<open>Observation duration and throughput\<close>

text \<open>
  C1 (as amended). For every sequence of decoded capture records: when there is a receive
  timestamp (then there is a send timestamp too), the observation duration equals
  max(all timestamps) - min(all timestamps), with no floor; without a receive timestamp
  it is the default 1.0. So the duration is never negative, and the throughput is
  received / duration when the duration is positive and 0.0 otherwise: no division by
  zero happens.
\<close>

theorem pcap_duration_unfloored:
  "(recv_times (pcap_scan pkts) \<noteq> [] \<longrightarrow>
      pcap_duration (pcap_scan pkts) =
        Max (set (recv_times (pcap_scan pkts) @ send_times (pcap_scan pkts)))
        - Min (set (recv_times (pcap_scan pkts) @ send_times (pcap_scan pkts))))
   \<and> (recv_times (pcap_scan pkts) = [] \<longrightarrow> pcap_duration (pcap_scan pkts) = 1)
   \<and> 0 \<le> pcap_duration (pcap_scan pkts)
   \<and> Throughput (parse_pcap_metrics (Stream pkts Eof)) =
       (if pcap_duration (pcap_scan pkts) > 0
        then real (received (pcap_scan pkts)) / pcap_duration (pcap_scan pkts) else 0)"
proof -
  let ?st = "pcap_scan pkts"
  have a: "recv_times ?st \<noteq> [] \<longrightarrow>
      pcap_duration ?st = Max (set (recv_times ?st @ send_times ?st))
        - Min (set (recv_times ?st @ send_times ?st))"
  proof
    assume r: "recv_times ?st \<noteq> []"
    then have "recv_times ?st @ send_times ?st \<noteq> []" by simp
    then show "pcap_duration ?st = Max (set (recv_times ?st @ send_times ?st))
        - Min (set (recv_times ?st @ send_times ?st))"
      using r recv_imp_send_nonempty [OF r]
      by (simp only: pcap_duration_def py_max_Max py_min_Min simp_thms if_True)
  qed
  have b: "recv_times ?st = [] \<longrightarrow> pcap_duration ?st = 1"
    by (simp add: pcap_duration_def)
  have c: "Throughput (parse_pcap_metrics (Stream pkts Eof)) =
       (if pcap_duration ?st > 0 then real (received ?st) / pcap_duration ?st else 0)"
    by (simp add: pcap_throughput_def Let_def)
  show ?thesis using a b c duration_nonneg [of ?st] by blast
qed

theorem pcap_duration_unfloored_witness:
  "recv_times (pcap_scan [plain_pkt 1, reply_pkt 3, reply_pkt 5]) = [3, 5]
   \<and> pcap_duration (pcap_scan [plain_pkt 1, reply_pkt 3, reply_pkt 5]) = 4
   \<and> Throughput (parse_pcap_metrics (Stream [plain_pkt 1, reply_pkt 3, reply_pkt 5] Eof)) = 1 / 2"
  using pcap_duration_unfloored [of "[plain_pkt 1, reply_pkt 3, reply_pkt 5]"]
  by (simp add: scan_recv_times scan_send_times scan_received List.map_filter_simps)

text \<open>
  C1 as stated fails: one echo reply gives one send and one receive timestamp and a
  duration of 0 (throughput 0.0); two replies half a second apart give a duration of
  0.5, by which the count of 2 is divided.
\<close>

theorem pcap_duration_below_one:
  "recv_times (pcap_scan [reply_pkt 7]) \<noteq> [] \<and> send_times (pcap_scan [reply_pkt 7]) \<noteq> []
   \<and> pcap_duration (pcap_scan [reply_pkt 7]) = 0
   \<and> \<not> 1 \<le> pcap_duration (pcap_scan [reply_pkt 7])
   \<and> Throughput (parse_pcap_metrics (Stream [reply_pkt 7] Eof)) = 0
   \<and> pcap_duration (pcap_scan [reply_pkt 10, reply_pkt (21 / 2)]) = 1 / 2
   \<and> Throughput (parse_pcap_metrics (Stream [reply_pkt 10, reply_pkt (21 / 2)] Eof)) = 4"
  by (simp add: pcap_scan_def pcap_step_def pcap_init_def reply_pkt_def pcap_duration_def
      pcap_throughput_def py_max_def py_min_def Let_def)

subsection \<open>Delivery ratio\<close>

text \<open>
  C2. For every sequence of decoded capture records the counts satisfy
  0 \<le> received \<le> sent (sent counts the records with a network-layer or control-layer
  header, received those of them with an accepted reply type), the returned PDR is
  received / sent * 100 when sent > 0 and 0 otherwise, and the PDR of every input,
  also a missing or unreadable capture, lies in [0, 100].
\<close>

theorem pcap_pdr_range:
  "received (pcap_scan pkts) \<le> sent (pcap_scan pkts)
   \<and> sent (pcap_scan pkts) = length (List.map_filter send_event pkts)
   \<and> received (pcap_scan pkts) = length (List.map_filter recv_event pkts)
   \<and> PDR (parse_pcap_metrics (Stream pkts Eof)) =
       (if sent (pcap_scan pkts) > 0
        then real (received (pcap_scan pkts)) / real (sent (pcap_scan pkts)) * 100 else 0)
   \<and> 0 \<le> PDR (parse_pcap_metrics src) \<and> PDR (parse_pcap_metrics src) \<le> 100"
proof -
  have b: "0 \<le> PDR (parse_pcap_metrics src) \<and> PDR (parse_pcap_metrics src) \<le> 100"
  proof (cases src)
    case Missing
    then show ?thesis by (simp add: pcap_fallback_def)
  next
    case (Stream pkts' e)
    then show ?thesis
      using pdr_bounds [OF received_le_sent, of pkts']
      by (cases e) (simp_all add: pcap_fallback_def Let_def)
  qed
  have c: "PDR (parse_pcap_metrics (Stream pkts Eof)) =
       (if sent (pcap_scan pkts) > 0
        then real (received (pcap_scan pkts)) / real (sent (pcap_scan pkts)) * 100 else 0)"
    by (simp add: pcap_pdr_def Let_def)
  show ?thesis
    using b c received_le_sent [of pkts] scan_sent [of pkts] scan_received [of pkts] by blast
qed

theorem pcap_pdr_range_witness:
  "sent (pcap_scan (map plain_pkt [1, 2, 3, 4, 5, 6] @ map reply_pkt [7, 8, 9, 10])) = 10
   \<and> received (pcap_scan (map plain_pkt [1, 2, 3, 4, 5, 6] @ map reply_pkt [7, 8, 9, 10])) = 4
   \<and> PDR (parse_pcap_metrics
        (Stream (map plain_pkt [1, 2, 3, 4, 5, 6] @ map reply_pkt [7, 8, 9, 10]) Eof)) = 40"
  using pcap_pdr_range [of "map plain_pkt [1, 2, 3, 4, 5, 6] @ map reply_pkt [7, 8, 9, 10]" Missing]
  by (simp add: List.map_filter_simps)

subsection \<open>Average end-to-end delay of a capture\<close>

text \<open>
  C10. For every sequence of decoded capture records the average end-to-end delay is
  (sum(recv_times) - sum of the first len(recv_times) entries of send_times)
  / len(recv_times) * 1000 when recv_times is not empty, and 0 when it is empty; the two
  lists hold the timestamps of the receive and of the send events, in file order.
\<close>

theorem pcap_ae2ed_formula:
  "Average_End_to_End_Delay (parse_pcap_metrics (Stream pkts Eof)) =
     (if recv_times (pcap_scan pkts) = [] then 0
      else (sum_list (recv_times (pcap_scan pkts))
            - sum_list (take (length (recv_times (pcap_scan pkts))) (send_times (pcap_scan pkts))))
           / real (length (recv_times (pcap_scan pkts))) * 1000)
   \<and> recv_times (pcap_scan pkts) = List.map_filter recv_event pkts
   \<and> send_times (pcap_scan pkts) = List.map_filter send_event pkts"
  by (simp add: pcap_ae2ed_def Let_def scan_recv_times scan_send_times)

theorem pcap_ae2ed_formula_witness:
  "Average_End_to_End_Delay
     (parse_pcap_metrics (Stream [plain_pkt 1, reply_pkt 2, reply_pkt 4] Eof)) = 1500
   \<and> Average_End_to_End_Delay (parse_pcap_metrics (Stream [plain_pkt 1, plain_pkt 2] Eof)) = 0"
  using pcap_ae2ed_formula [of "[plain_pkt 1, reply_pkt 2, reply_pkt 4]"]
        pcap_ae2ed_formula [of "[plain_pkt 1, plain_pkt 2]"]
  by (simp add: List.map_filter_simps)

section \<open>Properties of EventCorrelator\<close>

lemma dict_values_fresh:
  "k \<notin> fst ` set d \<Longrightarrow> dict_values (dict_set d k v) = dict_values d @ [v]"
  by (simp add: dict_set_def dict_values_def)

lemma dict_keys_fresh:
  "k \<notin> fst ` set d \<Longrightarrow> fst ` set (dict_set d k v) = insert k (fst ` set d)"
  by (simp add: dict_set_def)

text \<open>The fields the pairing depends on, after one line.\<close>

lemma ec_step_sent_packets:
  "sent_packets (ec_step flt st l) = sent_packets st + (if is_sent_line l then 1 else 0)"
  by (simp add: ec_step_def ec_etx_step_def ec_energy_step_def ec_received_step_def
      ec_sent_step_def ec_timestamp_step_def Let_def split: option.splits)

lemma ec_step_received_packets:
  "received_packets (ec_step flt st l) =
     received_packets st + (if is_received_line l then 1 else 0)"
  by (simp add: ec_step_def ec_etx_step_def ec_energy_step_def ec_received_step_def
      ec_sent_step_def ec_timestamp_step_def Let_def split: option.splits)

lemma ec_step_send_times:
  "send_times_ec (ec_step flt st l) =
     (case (is_sent_line l, line_timestamp l) of
        (True, Some t) \<Rightarrow> dict_set (send_times_ec st) (sent_packets st + 1) t
      | _ \<Rightarrow> send_times_ec st)"
  by (simp add: ec_step_def ec_etx_step_def ec_energy_step_def ec_received_step_def
      ec_sent_step_def ec_timestamp_step_def Let_def split: option.splits bool.splits)

lemma ec_received_step_delays:
  "delays (ec_received_step l ts st) =
     delays st @
     (if is_received_line l then
        (case ts of
           None \<Rightarrow> []
         | Some t \<Rightarrow>
             if send_times_ec st \<noteq> [] then [t - last (dict_values (send_times_ec st))] else [])
      else [])"
  by (simp add: ec_received_step_def Let_def split: option.splits)

lemma ec_received_step_send_times:
  "send_times_ec (ec_received_step l ts st) = send_times_ec st"
  by (simp add: ec_received_step_def Let_def split: option.splits)

lemma ec_sent_step_delays: "delays (ec_sent_step l ts st) = delays st"
  by (simp add: ec_sent_step_def Let_def split: option.splits)

lemma ec_timestamp_step_delays: "delays (ec_timestamp_step ts st) = delays st"
  by (simp add: ec_timestamp_step_def split: option.splits)

lemma ec_energy_step_keeps:
  "delays (ec_energy_step l st) = delays st"
  "send_times_ec (ec_energy_step l st) = send_times_ec st"
  by (simp_all add: ec_energy_step_def Let_def)

lemma ec_etx_step_keeps:
  "delays (ec_etx_step flt l st) = delays st"
  "send_times_ec (ec_etx_step flt l st) = send_times_ec st"
  by (simp_all add: ec_etx_step_def split: option.splits)

lemma ec_step_delays:
  "delays (ec_step flt st l) =
     delays st @
     (if is_received_line l then
        (case line_timestamp l of
           None \<Rightarrow> []
         | Some t \<Rightarrow>
             if send_times_ec (ec_step flt st l) \<noteq> []
             then [t - last (dict_values (send_times_ec (ec_step flt st l)))] else [])
      else [])"
proof -
  define ts where "ts = line_timestamp l"
  define st2 where "st2 = ec_sent_step l ts (ec_timestamp_step ts st)"
  have a: "send_times_ec (ec_step flt st l) = send_times_ec st2"
    by (simp add: ec_step_def Let_def ec_etx_step_keeps ec_energy_step_keeps
        ec_received_step_send_times st2_def ts_def)
  have b: "delays (ec_step flt st l) = delays (ec_received_step l ts st2)"
    by (simp add: ec_step_def Let_def ec_etx_step_keeps ec_energy_step_keeps st2_def ts_def)
  have c: "delays st2 = delays st"
    by (simp add: st2_def ec_sent_step_delays ec_timestamp_step_delays)
  show ?thesis
    unfolding a b ec_received_step_delays c ts_def ..
qed

lemma ec_step_etx_values:
  "etx_values_ec (ec_step flt st l) =
     etx_values_ec st @ (case ec_etx_sample flt l of None \<Rightarrow> [] | Some x \<Rightarrow> [x])"
  by (simp add: ec_step_def ec_etx_step_def ec_energy_step_def ec_received_step_def
      ec_sent_step_def ec_timestamp_step_def Let_def split: option.splits)

lemma ec_scan_snoc: "ec_scan flt (pre @ [l]) = ec_step flt (ec_scan flt pre) l"
  by (simp add: ec_scan_def)

lemma recorded_sends_snoc:
  "recorded_sends (pre @ [l]) =
     recorded_sends pre @
     (case (is_sent_line l, line_timestamp l) of (True, Some t) \<Rightarrow> [t] | _ \<Rightarrow> [])"
  by (simp add: recorded_sends_def map_filter_snoc split: option.splits bool.splits)

lemma dict_set_fresh_keys:
  assumes "\<forall>k \<in> fst ` set d. k \<le> n"
  shows "fst ` set (dict_set d (Suc n) v) = insert (Suc n) (fst ` set d)"
    and "dict_values (dict_set d (Suc n) v) = dict_values d @ [v]"
proof -
  have "Suc n \<notin> fst ` set d" using assms by fastforce
  then show "fst ` set (dict_set d (Suc n) v) = insert (Suc n) (fst ` set d)"
    and "dict_values (dict_set d (Suc n) v) = dict_values d @ [v]"
    by (simp_all add: dict_set_def dict_values_def)
qed

lemma ec_step_keys_bounded:
  assumes "keys_bounded st"
  shows "keys_bounded (ec_step flt st l)"
proof (cases "is_sent_line l")
  case False
  then have "send_times_ec (ec_step flt st l) = send_times_ec st"
    and "sent_packets (ec_step flt st l) = sent_packets st"
    by (simp_all add: ec_step_send_times ec_step_sent_packets)
  then show ?thesis using assms by (simp only: keys_bounded_def)
next
  case True
  then have sp: "sent_packets (ec_step flt st l) = Suc (sent_packets st)"
    by (simp add: ec_step_sent_packets)
  show ?thesis
  proof (cases "line_timestamp l")
    case None
    then have "send_times_ec (ec_step flt st l) = send_times_ec st"
      using True by (simp add: ec_step_send_times)
    then show ?thesis using assms sp by (fastforce simp: keys_bounded_def)
  next
    case (Some t)
    then have "send_times_ec (ec_step flt st l) =
                 dict_set (send_times_ec st) (Suc (sent_packets st)) t"
      using True by (simp add: ec_step_send_times)
    then have "fst ` set (send_times_ec (ec_step flt st l)) =
                 insert (Suc (sent_packets st)) (fst ` set (send_times_ec st))"
      using dict_set_fresh_keys(1) [OF assms [unfolded keys_bounded_def]] by simp
    then show ?thesis using assms sp by (fastforce simp: keys_bounded_def)
  qed
qed

lemma ec_step_dict_values:
  assumes "keys_bounded st"
  shows "dict_values (send_times_ec (ec_step flt st l)) =
           dict_values (send_times_ec st) @
           (case (is_sent_line l, line_timestamp l) of (True, Some t) \<Rightarrow> [t] | _ \<Rightarrow> [])"
proof (cases "is_sent_line l")
  case False
  then show ?thesis by (simp add: ec_step_send_times)
next
  case True
  show ?thesis
  proof (cases "line_timestamp l")
    case None
    then show ?thesis using True by (simp add: ec_step_send_times)
  next
    case (Some t)
    then have "send_times_ec (ec_step flt st l) =
                 dict_set (send_times_ec st) (Suc (sent_packets st)) t"
      using True by (simp add: ec_step_send_times)
    then show ?thesis
      using dict_set_fresh_keys(2) [OF assms [unfolded keys_bounded_def]] True Some by simp
  qed
qed

lemma ec_scan_keys_bounded: "keys_bounded (ec_scan flt lines)"
proof (induction lines rule: rev_induct)
  case Nil
  show ?case by (simp add: ec_scan_def ec_init_def keys_bounded_def)
next
  case (snoc l pre)
  then show ?case unfolding ec_scan_snoc by (rule ec_step_keys_bounded)
qed

lemma ec_scan_sends:
  "dict_values (send_times_ec (ec_scan flt lines)) = recorded_sends lines"
proof (induction lines rule: rev_induct)
  case Nil
  show ?case
    by (simp add: ec_scan_def ec_init_def dict_values_def recorded_sends_def
        List.map_filter_simps)
next
  case (snoc l pre)
  show ?case
    unfolding ec_scan_snoc ec_step_dict_values [OF ec_scan_keys_bounded] snoc.IH
      recorded_sends_snoc ..
qed

lemma ec_scan_send_times_empty:
  "send_times_ec (ec_scan flt lines) = [] \<longleftrightarrow> recorded_sends lines = []"
  using ec_scan_sends [of flt lines] by (cases "send_times_ec (ec_scan flt lines)") (auto simp: dict_values_def)

lemma ec_scan_delays_snoc:
  "delays (ec_scan flt (pre @ [l])) =
     delays (ec_scan flt pre) @
     (if is_received_line l then
        (case line_timestamp l of
           None \<Rightarrow> []
         | Some t \<Rightarrow>
             (case last_send_time (pre @ [l]) of None \<Rightarrow> [] | Some s \<Rightarrow> [t - s]))
      else [])"
proof -
  have e: "send_times_ec (ec_scan flt (pre @ [l])) = [] \<longleftrightarrow> recorded_sends (pre @ [l]) = []"
    by (rule ec_scan_send_times_empty)
  have v: "dict_values (send_times_ec (ec_scan flt (pre @ [l]))) = recorded_sends (pre @ [l])"
    by (rule ec_scan_sends)
  have d: "delays (ec_scan flt (pre @ [l])) =
     delays (ec_scan flt pre) @
     (if is_received_line l then
        (case line_timestamp l of
           None \<Rightarrow> []
         | Some t \<Rightarrow>
             if send_times_ec (ec_scan flt (pre @ [l])) \<noteq> []
             then [t - last (dict_values (send_times_ec (ec_scan flt (pre @ [l]))))] else [])
      else [])"
    unfolding ec_scan_snoc by (rule ec_step_delays)
  show ?thesis
  proof (cases "recorded_sends (pre @ [l])")
    case Nil
    then show ?thesis
      by (simp only: d v e last_send_time_def) (simp split: option.splits)
  next
    case (Cons a as)
    then show ?thesis
      by (simp only: d v e last_send_time_def) (simp split: option.splits)
  qed
qed


lemma ec_scan_received_snoc:
  "received_packets (ec_scan flt (pre @ [l])) =
     received_packets (ec_scan flt pre) + (if is_received_line l then 1 else 0)"
  unfolding ec_scan_snoc by (rule ec_step_received_packets)

subsection \<open>Pairing of receive events with sends\<close>

text \<open>
  C4 (as amended). For every log read so far and every next line: a receive line
  increments \<open>received\<close>; when it carries a timestamp and at least one send with a
  timestamp has been recorded up to and including this line, it adds one delay sample,
  its timestamp minus the timestamp of the most recently recorded send; otherwise it adds
  no delay sample. A line that is not a receive adds none. Recorded sends are never
  removed: the recorded timestamps are those of all sends so far, so the same send is
  paired with every receive that follows it until the next send.
\<close>

theorem ec_receive_pairing:
  "received_packets (ec_scan flt (pre @ [l])) =
     received_packets (ec_scan flt pre) + (if is_received_line l then 1 else 0)
   \<and> delays (ec_scan flt (pre @ [l])) =
       delays (ec_scan flt pre) @
       (if is_received_line l then
          (case line_timestamp l of
             None \<Rightarrow> []
           | Some t \<Rightarrow>
               (case last_send_time (pre @ [l]) of None \<Rightarrow> [] | Some s \<Rightarrow> [t - s]))
        else [])
   \<and> dict_values (send_times_ec (ec_scan flt (pre @ [l]))) = recorded_sends (pre @ [l])"
  using ec_scan_received_snoc [of flt pre l] ec_scan_delays_snoc [of flt pre l]
    ec_scan_sends [of flt "pre @ [l]"]
  by blast


theorem ec_receive_pairing_witness:
  "received_packets (ec_scan no_float lifo_log) = 2
   \<and> delays (ec_scan no_float lifo_log) = [1000, 2000]
   \<and> dict_values (send_times_ec (ec_scan no_float lifo_log)) = [1000]"
proof -
  let ?pre = "[log_line ''00:01.000 broadcast message sent'',
               log_line ''00:02.000 broadcast message received'']"
  let ?l = "log_line ''00:03.000 broadcast message received''"
  have a: "is_received_line ?l" by code_simp
  have b: "line_timestamp ?l = Some 3000" by code_simp
  have c: "recorded_sends (?pre @ [?l]) = [1000]" by code_simp
  have d: "delays (ec_scan no_float ?pre) = [1000]" by code_simp
  have e: "received_packets (ec_scan no_float ?pre) = 1" by code_simp
  show ?thesis
    using ec_receive_pairing [of no_float ?pre ?l] a b c d e
    by (simp add: lifo_log_def last_send_time_def)
qed

text \<open>
  C4 as stated fails: after one send at 1000 ms, the receives at 2000 ms and 3000 ms are
  both paired with it; were the send consumed by the first receive, the second would
  give no delay sample.
\<close>

theorem ec_send_not_consumed:
  "delays (ec_scan no_float lifo_log) = [1000, 2000] \<and> spec_lifo_delays [] lifo_log = [1000]"
  by code_simp

subsection \<open>Sign of the average end-to-end delay\<close>

lemma set_map_filter_iff:
  "y \<in> set (List.map_filter f xs) \<longleftrightarrow> (\<exists>x \<in> set xs. f x = Some y)"
  by (induction xs) (auto simp: List.map_filter_simps split: option.splits)

lemma recorded_sends_subset:
  "set (recorded_sends ls) \<subseteq> set (List.map_filter line_timestamp ls)"
  by (auto simp: recorded_sends_def set_map_filter_iff split: if_splits)

lemma last_send_time_mem:
  assumes "last_send_time ls = Some s"
  shows "s \<in> set (recorded_sends ls)"
proof (cases "recorded_sends ls")
  case Nil
  then show ?thesis using assms by (simp add: last_send_time_def)
next
  case (Cons a as)
  then have "s = last (recorded_sends ls)"
    using assms by (simp add: last_send_time_def del: last.simps)
  moreover have "recorded_sends ls \<noteq> []" using Cons by simp
  ultimately show ?thesis using last_in_set by blast
qed

lemma delays_nonneg:
  "sorted (List.map_filter line_timestamp ls) \<Longrightarrow> \<forall>d \<in> set (delays (ec_scan flt ls)). 0 \<le> d"
proof (induction ls rule: rev_induct)
  case Nil
  show ?case by (simp add: ec_scan_def ec_init_def)
next
  case (snoc l pre)
  have srt: "sorted (List.map_filter line_timestamp pre @
                     (case line_timestamp l of None \<Rightarrow> [] | Some t \<Rightarrow> [t]))"
    using snoc.prems by (simp add: map_filter_snoc)
  then have "sorted (List.map_filter line_timestamp pre)"
    by (simp add: sorted_append)
  then have old: "\<forall>d \<in> set (delays (ec_scan flt pre)). 0 \<le> d"
    by (rule snoc.IH)
  have new: "s \<le> t" if t: "line_timestamp l = Some t" and s: "last_send_time (pre @ [l]) = Some s"
    for s t
  proof -
    have "s \<in> set (List.map_filter line_timestamp (pre @ [l]))"
      using last_send_time_mem [OF s] recorded_sends_subset by blast
    then have "s \<in> set (List.map_filter line_timestamp pre) \<or> s = t"
      using t by (auto simp: map_filter_snoc)
    then show ?thesis using srt t by (auto simp: sorted_append)
  qed
  define X where "X =
     (if is_received_line l then
        (case line_timestamp l of
           None \<Rightarrow> []
         | Some t \<Rightarrow>
             (case last_send_time (pre @ [l]) of None \<Rightarrow> [] | Some s \<Rightarrow> [t - s]))
      else [])"
  have eq: "delays (ec_scan flt (pre @ [l])) = delays (ec_scan flt pre) @ X"
    unfolding X_def by (rule ec_scan_delays_snoc)
  have shape: "X = [] \<or> (\<exists>t s. line_timestamp l = Some t
                 \<and> last_send_time (pre @ [l]) = Some s \<and> X = [t - s])"
    by (cases "line_timestamp l"; cases "last_send_time (pre @ [l])") (simp_all add: X_def)
  have fresh: "\<forall>d \<in> set X. 0 \<le> d"
  proof -
    from shape consider "X = []"
      | t s where "line_timestamp l = Some t" "last_send_time (pre @ [l]) = Some s" "X = [t - s]"
      by blast
    then show ?thesis
    proof cases
      case 1
      then show ?thesis by simp
    next
      case 2
      then show ?thesis using new [of t s] by simp
    qed
  qed
  show ?case using old fresh by (auto simp: eq)
qed

lemma round_half_even_nonneg: "0 \<le> x \<Longrightarrow> 0 \<le> round_half_even x"
  by (simp add: round_half_even_def Let_def)

lemma py_round2_nonneg: "0 \<le> x \<Longrightarrow> 0 \<le> py_round2 x"
  using round_half_even_nonneg [of "x * 100"] by (simp add: py_round2_def)

lemma py_round2_zero: "py_round2 0 = 0"
  by (simp add: py_round2_def round_half_even_def)

lemma ec_avg_delay_nonneg:
  assumes "\<forall>d \<in> set (delays st). 0 \<le> d" and "ec_avg_delay st = Inr a"
  shows "0 \<le> a"
proof (cases "delays st = []")
  case True
  then show ?thesis using assms(2) by (simp add: ec_avg_delay_def)
next
  case False
  have "0 \<le> sum_list (delays st)" using assms(1) by (simp add: sum_list_nonneg)
  moreover have "a = of_int (sum_list (delays st)) / of_int (int (length (delays st)))"
    using assms(2) False by (simp add: ec_avg_delay_def int_truediv_def split: if_splits)
  ultimately show ?thesis by simp
qed

lemma ec_delay_field:
  assumes "ec_metrics_of st = Inr m"
  shows "\<exists>a. ec_avg_delay st = Inr a \<and> ec_Average_End_to_End_Delay m = py_round2 a"
  using assms
  by (auto simp: ec_metrics_of_def and_then_def Let_def split: sum.splits)

lemma parse_log_produced:
  assumes "parse_log flt (Stream ls e) = Inr m"
  shows "ec_metrics_of (ec_scan flt ls) = Inr m"
  using assms by (cases e) (simp_all split: if_splits)

lemma pcap_ae2ed_nonneg:
  assumes "sorted (List.map_filter send_event pkts)"
  shows "0 \<le> pcap_ae2ed (pcap_scan pkts)"
proof -
  let ?S = "filter (\<lambda>p. send_event p \<noteq> None) pkts"
  let ?f = "the \<circ> send_event"
  have s: "send_times (pcap_scan pkts) = map ?f ?S"
    by (simp add: scan_send_times List.map_filter_def)
  have "List.map_filter recv_event pkts = map ?f (filter (\<lambda>p. recv_event p \<noteq> None) ?S)"
  proof (induction pkts)
    case Nil
    show ?case by (simp add: List.map_filter_simps)
  next
    case (Cons p ps)
    show ?case
    proof (cases "recv_event p")
      case None
      then show ?thesis using Cons by (simp add: List.map_filter_simps)
    next
      case (Some t)
      then show ?thesis
        using Cons recv_event_send_event [OF Some] by (simp add: List.map_filter_simps)
    qed
  qed
  then have r: "recv_times (pcap_scan pkts) = map ?f (filter (\<lambda>p. recv_event p \<noteq> None) ?S)"
    by (simp add: scan_recv_times)
  have "sorted (map ?f ?S)" using assms by (simp add: List.map_filter_def)
  then have "sum_list (map ?f (take (length (filter (\<lambda>p. recv_event p \<noteq> None) ?S)) ?S))
               \<le> sum_list (map ?f (filter (\<lambda>p. recv_event p \<noteq> None) ?S))"
    by (rule sum_take_sorted)
  then have "sum_list (take (length (recv_times (pcap_scan pkts))) (send_times (pcap_scan pkts)))
               \<le> sum_list (recv_times (pcap_scan pkts))"
    by (simp add: r s take_map)
  then show ?thesis by (simp add: pcap_ae2ed_def)
qed

text \<open>Numbers far inside the range of a float; the metrics of the concrete logs.\<close>

lemma float_overflow_small: "\<bar>x\<bar> < 2 ^ 64 \<Longrightarrow> \<not> float_overflow x"
proof -
  have "(2::real) ^ 64 \<le> 2 ^ 1024 - 2 ^ 970" by simp
  then show "\<bar>x\<bar> < 2 ^ 64 \<Longrightarrow> \<not> float_overflow x"
    unfolding float_overflow_def by linarith
qed

lemma int_truediv_small:
  "b \<noteq> 0 \<Longrightarrow> \<bar>real_of_int a / real_of_int b\<bar> < 2 ^ 64 \<Longrightarrow>
     int_truediv a b = Inr (real_of_int a / real_of_int b)"
  by (simp add: int_truediv_def float_overflow_small)

lemma int_to_float_small:
  "\<bar>real_of_int a\<bar> < 2 ^ 64 \<Longrightarrow> int_to_float a = Inr (real_of_int a)"
  by (simp add: int_to_float_def float_overflow_small)

lemmas ec_metrics_unfold =
  ec_metrics_of_def and_then_def ec_pdr_def ec_avg_delay_def ec_duration_def
  ec_throughput_def ec_avg_etx_def int_truediv_small int_to_float_small py_round2_def
  round_half_even_def Let_def

lemma lifo_scan:
  "ec_scan no_float lifo_log =
     \<lparr>sent_packets = 1, received_packets = 2, delays = [1000, 2000], energy_consumption = 0,
      etx_values_ec = [], first_time = Some 1000, last_time = Some 3000,
      send_times_ec = [(1, 1000)]\<rparr>"
  by code_simp

lemma lifo_no_raise: "\<not> list_ex ec_line_raises lifo_log"
  by code_simp

lemma lifo_metrics:
  "parse_log no_float (Stream lifo_log Eof) =
     Inr \<lparr>ec_PDR = 200, ec_Average_End_to_End_Delay = 1500, ec_Overhead_Packets = - 1,
          ec_Energy_Consumption = 0, ec_Throughput = 1, ec_Average_ETX = 0\<rparr>"
  by (simp add: lifo_scan lifo_no_raise ec_metrics_unfold)

lemma backwards_scan:
  "ec_scan no_float backwards_log =
     \<lparr>sent_packets = 1, received_packets = 1, delays = [- 4000], energy_consumption = 0,
      etx_values_ec = [], first_time = Some 5000, last_time = Some 1000,
      send_times_ec = [(1, 5000)]\<rparr>"
  by code_simp

lemma backwards_no_raise: "\<not> list_ex ec_line_raises backwards_log"
  by code_simp

lemma backwards_metrics:
  "parse_log no_float (Stream backwards_log Eof) =
     Inr \<lparr>ec_PDR = 100, ec_Average_End_to_End_Delay = - 4000, ec_Overhead_Packets = 0,
          ec_Energy_Consumption = 0, ec_Throughput = 0, ec_Average_ETX = 0\<rparr>"
  by (simp add: backwards_scan backwards_no_raise ec_metrics_unfold)

text \<open>
  C3 (as amended). The average end-to-end delay of the produced metrics is at least 0
  whenever the timestamps come in non-decreasing order: for a capture read to its end,
  those of the records counted as sent; for the log of the EventCorrelator variant, those
  at the start of its lines, whenever \<open>parse_log\<close> produces metrics at all (it raises
  instead of returning when a conversion or a division leaves the range). For a missing
  or unreadable capture the delay is 0.
\<close>

theorem delay_nonneg_when_monotone:
  "(sorted (List.map_filter send_event pkts) \<longrightarrow>
      0 \<le> Average_End_to_End_Delay (parse_pcap_metrics (Stream pkts Eof)))
   \<and> Average_End_to_End_Delay (parse_pcap_metrics (Stream pkts Raised)) = 0
   \<and> Average_End_to_End_Delay (parse_pcap_metrics Missing) = 0
   \<and> (sorted (List.map_filter line_timestamp ls) \<and> parse_log flt (Stream ls e) = Inr m \<longrightarrow>
        0 \<le> ec_Average_End_to_End_Delay m)"
proof -
  have a: "sorted (List.map_filter send_event pkts) \<longrightarrow>
      0 \<le> Average_End_to_End_Delay (parse_pcap_metrics (Stream pkts Eof))"
    using pcap_ae2ed_nonneg [of pkts] by (simp add: Let_def)
  have b: "Average_End_to_End_Delay (parse_pcap_metrics (Stream pkts Raised)) = 0"
    "Average_End_to_End_Delay (parse_pcap_metrics Missing) = 0"
    by (simp_all add: pcap_fallback_def)
  have c: "0 \<le> ec_Average_End_to_End_Delay m"
    if srt: "sorted (List.map_filter line_timestamp ls)"
      and res: "parse_log flt (Stream ls e) = Inr m"
  proof -
    have "ec_metrics_of (ec_scan flt ls) = Inr m"
      using res by (rule parse_log_produced)
    then obtain d where d: "ec_avg_delay (ec_scan flt ls) = Inr d"
      and m: "ec_Average_End_to_End_Delay m = py_round2 d"
      using ec_delay_field by blast
    have "0 \<le> d"
      using delays_nonneg [OF srt] d by (rule ec_avg_delay_nonneg)
    then show ?thesis using m by (simp add: py_round2_nonneg)
  qed
  show ?thesis using a b c by blast
qed

theorem delay_nonneg_when_monotone_witness:
  "sorted (List.map_filter send_event [plain_pkt 1, reply_pkt 2, reply_pkt 4])
   \<and> 0 \<le> Average_End_to_End_Delay
           (parse_pcap_metrics (Stream [plain_pkt 1, reply_pkt 2, reply_pkt 4] Eof))
   \<and> sorted (List.map_filter line_timestamp lifo_log)
   \<and> (\<exists>m. parse_log no_float (Stream lifo_log Eof) = Inr m
           \<and> ec_Average_End_to_End_Delay m = 1500 \<and> 0 \<le> ec_Average_End_to_End_Delay m)"
proof -
  let ?M = "\<lparr>ec_PDR = 200, ec_Average_End_to_End_Delay = 1500, ec_Overhead_Packets = - 1,
             ec_Energy_Consumption = 0, ec_Throughput = 1, ec_Average_ETX = 0\<rparr>"
  have a: "sorted (List.map_filter send_event [plain_pkt 1, reply_pkt 2, reply_pkt 4])"
    by (simp add: List.map_filter_simps)
  have "List.map_filter line_timestamp lifo_log = [1000, 2000, 3000]"
    by code_simp
  then have b: "sorted (List.map_filter line_timestamp lifo_log)"
    by simp
  have c: "parse_log no_float (Stream lifo_log Eof) = Inr ?M"
    by (rule lifo_metrics)
  have "0 \<le> Average_End_to_End_Delay
           (parse_pcap_metrics (Stream [plain_pkt 1, reply_pkt 2, reply_pkt 4] Eof))"
    and "0 \<le> ec_Average_End_to_End_Delay ?M"
    using a b c
      delay_nonneg_when_monotone [of "[plain_pkt 1, reply_pkt 2, reply_pkt 4]" lifo_log
        no_float Eof ?M]
    by blast+
  then show ?thesis using a b c by simp
qed

text \<open>
  C3 as stated fails on input with timestamps out of order: a data packet at 5 s followed
  by a reply at 1 s, and a send line at 00:05.000 followed by a receive line at
  00:01.000, both give an average delay of -4000 ms.
\<close>

theorem delay_negative_out_of_order:
  "Average_End_to_End_Delay (parse_pcap_metrics (Stream [plain_pkt 5, reply_pkt 1] Eof)) = - 4000
   \<and> map_sum id ec_Average_End_to_End_Delay (parse_log no_float (Stream backwards_log Eof))
       = Inr (- 4000)"
proof -
  have a: "Average_End_to_End_Delay (parse_pcap_metrics (Stream [plain_pkt 5, reply_pkt 1] Eof))
             = - 4000"
    by (simp add: Let_def pcap_ae2ed_def scan_recv_times scan_send_times List.map_filter_simps)
  have b: "map_sum id ec_Average_End_to_End_Delay (parse_log no_float (Stream backwards_log Eof))
             = Inr (- 4000)"
    unfolding backwards_metrics by simp
  show ?thesis using a b by simp
qed

lemma ec_scan_etx_values:
  "etx_values_ec (ec_scan flt ls) = List.map_filter (ec_etx_sample flt) ls"
  by (induction ls rule: rev_induct)
     (simp_all add: ec_scan_snoc ec_step_etx_values map_filter_snoc,
      simp add: ec_scan_def ec_init_def List.map_filter_simps)

lemma map_filter_all_None: "\<forall>x \<in> set xs. f x = None \<Longrightarrow> List.map_filter f xs = []"
  by (induction xs) (simp_all add: List.map_filter_simps)

lemma ec_no_etx_samples:
  assumes "\<forall>l \<in> set ls. ec_etx_sample flt l = None"
    and "ec_metrics_of (ec_scan flt ls) = Inr m"
  shows "ec_Average_ETX m = 0"
proof -
  have "etx_values_ec (ec_scan flt ls) = []"
    using assms(1) by (simp add: ec_scan_etx_values map_filter_all_None)
  then have "ec_avg_etx (ec_scan flt ls) = Inr 0"
    by (simp add: ec_avg_etx_def)
  then show ?thesis
    using assms(2)
    by (auto simp: ec_metrics_of_def and_then_def Let_def py_round2_zero split: sum.splits)
qed

text \<open>What \<open>float\<close> does is irrelevant on a log without any ETX line.\<close>

lemma ec_step_without_etx:
  "\<not> contains ''ETX'' l \<Longrightarrow> ec_step flt st l = ec_step flt' st l"
  by (simp add: ec_step_def ec_etx_step_def ec_etx_sample_def)

lemma ec_scan_without_etx:
  "\<forall>l \<in> set ls. \<not> contains ''ETX'' l \<Longrightarrow> ec_scan flt ls = ec_scan flt' ls"
proof (induction ls rule: rev_induct)
  case Nil
  show ?case by (simp add: ec_scan_def)
next
  case (snoc l pre)
  then have "ec_scan flt pre = ec_scan flt' pre" and "\<not> contains ''ETX'' l"
    by simp_all
  then show ?case
    using ec_step_without_etx [of l flt "ec_scan flt' pre" flt'] by (simp add: ec_scan_snoc)
qed

section \<open>Properties of LogTraceParser\<close>

lemma log_step_etx_values:
  "etx_values (log_step st l) =
     etx_values st @ (case etx_match l of None \<Rightarrow> [] | Some x \<Rightarrow> [float_of_decimal x])"
  by (simp add: log_step_def Let_def split: option.splits)

lemma log_step_ctrl_count:
  "ctrl_count (log_step st l) = ctrl_count st + (if ctrl_match l then 1 else 0)"
  by (simp add: log_step_def Let_def split: option.splits)

lemma log_step_node_ids:
  "node_ids (log_step st l) =
     node_ids st \<union> (case node_id_match l of None \<Rightarrow> {} | Some i \<Rightarrow> {i})"
  by (simp add: log_step_def Let_def split: option.splits)

lemma log_step_energy_score:
  "energy_score (log_step st l) =
     (case energy_match l of
        Some e \<Rightarrow> float_of_decimal e
      | None \<Rightarrow> if tx_rx_line l then energy_score st + 1 else energy_score st)"
  by (simp add: log_step_def Let_def split: option.splits)

lemma log_scan_snoc: "log_scan (pre @ [l]) = log_step (log_scan pre) l"
  by (simp add: log_scan_def)

lemma log_scan_Nil: "log_scan [] = log_init"
  by (simp add: log_scan_def)

lemma log_scan_etx_values:
  "etx_values (log_scan ls) = map float_of_decimal (List.map_filter etx_match ls)"
proof (induction ls rule: rev_induct)
  case Nil
  show ?case by (simp add: log_scan_Nil log_init_def List.map_filter_simps)
next
  case (snoc l pre)
  then show ?case
    by (simp add: log_scan_snoc log_step_etx_values map_filter_snoc split: option.splits)
qed

lemma log_scan_ctrl_count: "ctrl_count (log_scan ls) = length (filter ctrl_match ls)"
proof (induction ls rule: rev_induct)
  case Nil
  show ?case by (simp add: log_scan_Nil log_init_def)
next
  case (snoc l pre)
  then show ?case by (simp add: log_scan_snoc log_step_ctrl_count)
qed

lemma log_scan_node_ids: "node_ids (log_scan ls) = set (List.map_filter node_id_match ls)"
proof (induction ls rule: rev_induct)
  case Nil
  show ?case by (simp add: log_scan_Nil log_init_def List.map_filter_simps)
next
  case (snoc l pre)
  then show ?case
    by (cases "node_id_match l") (simp_all add: log_scan_snoc log_step_node_ids map_filter_snoc)
qed

text \<open>The energy score after a run of lines without an explicit total.\<close>

lemma foldl_energy_heuristic:
  "\<forall>l \<in> set ls. energy_match l = None \<Longrightarrow>
     energy_score (foldl log_step st ls) = energy_score st + real (length (filter tx_rx_line ls))"
proof (induction ls arbitrary: st)
  case Nil
  show ?case by simp
next
  case (Cons l ls)
  have "energy_score (log_step st l) = energy_score st + (if tx_rx_line l then 1 else 0)"
    using Cons.prems by (simp add: log_step_energy_score)
  moreover have "energy_score (foldl log_step (log_step st l) ls) =
      energy_score (log_step st l) + real (length (filter tx_rx_line ls))"
    using Cons.prems by (intro Cons.IH) simp
  ultimately show ?case by simp
qed

lemma log_scan_energy_after_total:
  assumes "energy_match l = Some e" and "\<forall>l' \<in> set post. energy_match l' = None"
  shows "energy_score (log_scan (pre @ l # post)) =
           float_of_decimal e + real (length (filter tx_rx_line post))"
proof -
  have "log_scan (pre @ l # post) = foldl log_step (log_step (log_scan pre) l) post"
    by (simp add: log_scan_def)
  then show ?thesis
    using foldl_energy_heuristic [OF assms(2), of "log_step (log_scan pre) l"] assms(1)
    by (simp add: log_step_energy_score)
qed

lemma log_scan_energy_no_total:
  assumes "\<forall>l \<in> set ls. energy_match l = None"
  shows "energy_score (log_scan ls) = real (length (filter tx_rx_line ls))"
  using foldl_energy_heuristic [OF assms, of log_init] by (simp add: log_scan_def log_init_def)

subsection \<open>Energy score\<close>

text \<open>
  C5 (as amended). For every log text: when no line matches "Total energy: <number>", the
  final energy score is the number of lines containing both TX and RX; otherwise it is
  the number in the last line matching "Total energy: <number>" plus 1.0 for every line
  after that one containing both TX and RX. The heuristic is an alternative per line, so
  lines before the last explicit total do not count, and lines after it do.
\<close>

theorem energy_total_then_heuristic:
  "((\<forall>l \<in> set ls. energy_match l = None) \<longrightarrow>
      Energy_Consumption (parse_log_metrics (Stream ls Eof)) =
        real (length (filter tx_rx_line ls)))
   \<and> (energy_match l = Some e \<and> (\<forall>l' \<in> set post. energy_match l' = None) \<longrightarrow>
        Energy_Consumption (parse_log_metrics (Stream (pre @ l # post) Eof)) =
          float_of_decimal e + real (length (filter tx_rx_line post)))"
  using log_scan_energy_no_total [of ls] log_scan_energy_after_total [of l e post pre]
  by (simp add: Let_def)

theorem energy_total_then_heuristic_witness:
  "energy_match (log_line ''total energy: 2.5'') = Some ''2.5''
   \<and> Energy_Consumption (parse_log_metrics (Stream energy_log2 Eof)) = 7 / 2
   \<and> Energy_Consumption (parse_log_metrics (Stream [log_line ''TX RX'', log_line ''idle''] Eof)) = 1"
proof -
  let ?pre = "[log_line ''TX RX'']"
  let ?l = "log_line ''total energy: 2.5''"
  let ?post = "[log_line ''RX and TX'', log_line ''idle'']"
  have a: "energy_match ?l = Some ''2.5''" by code_simp
  have b: "map energy_match ?post = [None, None]" by code_simp
  have c: "map tx_rx_line ?post = [True, False]" by code_simp
  have d: "float_of_decimal ''2.5'' = 5 / 2" by code_simp
  have e: "map energy_match [log_line ''TX RX'', log_line ''idle''] = [None, None]" by code_simp
  have f: "map tx_rx_line [log_line ''TX RX'', log_line ''idle''] = [True, False]" by code_simp
  have g: "energy_log2 = ?pre @ ?l # ?post" by (simp add: energy_log2_def)
  show ?thesis
    using energy_total_then_heuristic [of ?post ?l "''2.5''" ?post ?pre]
      energy_total_then_heuristic [of "[log_line ''TX RX'', log_line ''idle'']" ?l "''2.5''" ?post ?pre]
      a b c d e f
    by (simp add: g)
qed

text \<open>
  C5 as stated fails: in a log whose only explicit line reports 5 and is followed by a
  line with TX and RX, the final score is 6, not 5; the heuristic has contributed
  although an explicit line is present.
\<close>

theorem energy_heuristic_after_total:
  "map energy_match energy_log = [Some ''5'', None]
   \<and> float_of_decimal ''5'' = 5
   \<and> Energy_Consumption (parse_log_metrics (Stream energy_log Eof)) = 6"
  by code_simp

subsection \<open>Unreadable log\<close>

text \<open>
  C7. If the log file cannot be opened, or reading it fails after any number of lines,
  the result is exactly Overhead Packets 0.0, Energy Consumption 0.0, Average ETX 1.0;
  the failure is a value of the input here and the result is a metrics record, so
  nothing propagates.
\<close>

theorem log_unreadable_fallback:
  "parse_log_metrics Missing =
     \<lparr>Overhead_Packets = 0, Energy_Consumption = 0, Average_ETX = 1\<rparr>
   \<and> parse_log_metrics (Stream ls Raised) =
     \<lparr>Overhead_Packets = 0, Energy_Consumption = 0, Average_ETX = 1\<rparr>"
  by (simp add: log_fallback_def)

theorem log_unreadable_fallback_witness:
  "parse_log_metrics (Stream energy_log Raised) =
     \<lparr>Overhead_Packets = 0, Energy_Consumption = 0, Average_ETX = 1\<rparr>"
  using log_unreadable_fallback [of energy_log] by simp

subsection \<open>Overhead\<close>

text \<open>
  C8. For every log text the overhead is the number of control-message lines divided by
  max(1, number of distinct node ids parsed); with no node id the divisor is 1, and with
  two distinct node ids and 6 control-message lines the overhead is 3.0.
\<close>

theorem overhead_per_node:
  "Overhead_Packets (parse_log_metrics (Stream ls Eof)) =
     real (length (filter ctrl_match ls))
       / real (max 1 (card (set (List.map_filter node_id_match ls))))
   \<and> (set (List.map_filter node_id_match ls) = {} \<longrightarrow>
        Overhead_Packets (parse_log_metrics (Stream ls Eof)) =
          real (length (filter ctrl_match ls)))
   \<and> (card (set (List.map_filter node_id_match ls)) = 2 \<and> length (filter ctrl_match ls) = 6 \<longrightarrow>
        Overhead_Packets (parse_log_metrics (Stream ls Eof)) = 3)"
  by (simp add: Let_def log_normalized_ctrl_def log_node_count_def log_scan_ctrl_count
      log_scan_node_ids)

theorem overhead_per_node_witness:
  "List.map_filter node_id_match scenario_b_log = [''1'', ''2'']
   \<and> length (filter ctrl_match scenario_b_log) = 6
   \<and> Overhead_Packets (parse_log_metrics (Stream scenario_b_log Eof)) = 3
   \<and> Overhead_Packets (parse_log_metrics (Stream [log_line ''DIO'', log_line ''x''] Eof)) = 1"
proof -
  have a: "List.map_filter node_id_match scenario_b_log = [''1'', ''2'']" by code_simp
  have b: "length (filter ctrl_match scenario_b_log) = 6" by code_simp
  have c: "List.map_filter node_id_match [log_line ''DIO'', log_line ''x''] = []" by code_simp
  have d: "length (filter ctrl_match [log_line ''DIO'', log_line ''x'']) = 1" by code_simp
  show ?thesis
    using overhead_per_node [of scenario_b_log] overhead_per_node [of "[log_line ''DIO'', log_line ''x'']"]
      a b c d
    by simp
qed

subsection \<open>Default of the average link quality\<close>

lemma log_no_etx_samples:
  "\<forall>l \<in> set ls. etx_match l = None \<Longrightarrow> log_avg_etx (log_scan ls) = 1"
  by (simp add: log_avg_etx_def log_scan_etx_values map_filter_all_None)

lemma energy_log_scan:
  "ec_scan no_float energy_log =
     \<lparr>sent_packets = 0, received_packets = 0, delays = [], energy_consumption = 0,
      etx_values_ec = [], first_time = None, last_time = None, send_times_ec = []\<rparr>"
  by code_simp

lemma energy_log_no_raise: "\<not> list_ex ec_line_raises energy_log"
  by code_simp

lemma energy_log_metrics:
  "parse_log no_float (Stream energy_log Eof) =
     Inr \<lparr>ec_PDR = 0, ec_Average_End_to_End_Delay = 0, ec_Overhead_Packets = 0,
          ec_Energy_Consumption = 0, ec_Throughput = 0, ec_Average_ETX = 0\<rparr>"
  by (simp add: energy_log_scan energy_log_no_raise ec_metrics_unfold)

text \<open>
  C9 (as amended). For every log without link-quality samples, LogTraceParser
  (\<open>parse_log_metrics\<close>) gives an average link-quality metric of exactly 1.0, also on an
  unreadable log; the EventCorrelator variant (\<open>parse_log\<close> of omerw.py) gives 0 on
  such a log whenever it produces metrics (it raises instead of returning when a
  conversion or a division leaves the range).
\<close>

theorem etx_default_without_samples:
  "((\<forall>l \<in> set ls. etx_match l = None) \<longrightarrow> Average_ETX (parse_log_metrics (Stream ls e)) = 1)
   \<and> Average_ETX (parse_log_metrics Missing) = 1
   \<and> ((\<forall>l \<in> set ls. ec_etx_sample flt l = None) \<and> parse_log flt (Stream ls e') = Inr m \<longrightarrow>
        ec_Average_ETX m = 0)"
proof -
  have a: "(\<forall>l \<in> set ls. etx_match l = None) \<longrightarrow>
             Average_ETX (parse_log_metrics (Stream ls e)) = 1"
    using log_no_etx_samples [of ls] by (cases e) (simp_all add: Let_def log_fallback_def)
  have b: "Average_ETX (parse_log_metrics Missing) = 1"
    by (simp add: log_fallback_def)
  have c: "ec_Average_ETX m = 0"
    if "\<forall>l \<in> set ls. ec_etx_sample flt l = None" and "parse_log flt (Stream ls e') = Inr m"
    using that(1) parse_log_produced [OF that(2)] by (rule ec_no_etx_samples)
  show ?thesis using a b c by blast
qed

theorem etx_default_without_samples_witness:
  "map etx_match energy_log = [None, None]
   \<and> Average_ETX (parse_log_metrics (Stream energy_log Eof)) = 1
   \<and> map (ec_etx_sample no_float) energy_log = [None, None]
   \<and> (\<exists>m. parse_log no_float (Stream energy_log Eof) = Inr m \<and> ec_Average_ETX m = 0)"
proof -
  let ?M = "\<lparr>ec_PDR = 0, ec_Average_End_to_End_Delay = 0, ec_Overhead_Packets = 0,
             ec_Energy_Consumption = 0, ec_Throughput = 0, ec_Average_ETX = 0\<rparr>"
  have a: "map etx_match energy_log = [None, None]" by code_simp
  have b: "map (contains ''ETX'') energy_log = [False, False]" by code_simp
  have c: "map (ec_etx_sample no_float) energy_log = [None, None]"
    using b by (simp add: ec_etx_sample_def energy_log_def)
  have d: "parse_log no_float (Stream energy_log Eof) = Inr ?M" by (rule energy_log_metrics)
  have e: "\<forall>l \<in> set energy_log. etx_match l = None"
    and f: "\<forall>l \<in> set energy_log. ec_etx_sample no_float l = None"
    using a c by (simp_all add: energy_log_def)
  have "Average_ETX (parse_log_metrics (Stream energy_log Eof)) = 1"
    and "ec_Average_ETX ?M = 0"
    using etx_default_without_samples [of energy_log Eof no_float Eof ?M] d e f
    by blast+
  then show ?thesis using a c d by simp
qed

text \<open>
  C9 as stated fails for the EventCorrelator variant: on a log without any ETX line its
  average is 0, not 1.0, whatever \<open>float\<close> does.
\<close>

theorem ec_etx_default_is_zero:
  "\<forall>flt. map_sum id ec_Average_ETX (parse_log flt (Stream lifo_log Eof)) = Inr 0
         \<and> map_sum id ec_Average_ETX (parse_log flt (Stream lifo_log Eof)) \<noteq> Inr 1"
proof
  fix flt
  have "map (contains ''ETX'') lifo_log = [False, False, False]" by code_simp
  then have "\<forall>l \<in> set lifo_log. \<not> contains ''ETX'' l"
    by (simp add: lifo_log_def)
  then have "ec_scan flt lifo_log = ec_scan no_float lifo_log"
    by (rule ec_scan_without_etx)
  then have "parse_log flt (Stream lifo_log Eof) = parse_log no_float (Stream lifo_log Eof)"
    by simp
  moreover have "map_sum id ec_Average_ETX (parse_log no_float (Stream lifo_log Eof)) = Inr 0"
    unfolding lifo_metrics by simp
  ultimately show "map_sum id ec_Average_ETX (parse_log flt (Stream lifo_log Eof)) = Inr 0
         \<and> map_sum id ec_Average_ETX (parse_log flt (Stream lifo_log Eof)) \<noteq> Inr 1"
    by simp
qed

section \<open>Properties of the control-message pattern\<close>

lemma last_char_Cons: "last_char p (c # cs) = last_char (Some c) cs"
  by (simp add: last_char_def)

lemma last_char_Nil: "last_char p [] = p"
  by (simp add: last_char_def)

lemma can_Eps: "can ic Eps p s p s"
  by (simp add: can_def)

lemma can_Lit:
  "(if ic then py_lower c = py_lower a else c = a) \<Longrightarrow> can ic (Lit a) p (c # s) (Some c) s"
  by (simp add: can_def)

lemma can_Then:
  assumes "can ic r1 p s p1 s1" and "can ic r2 p1 s1 p2 s2"
  shows "can ic (Then r1 r2) p s p2 s2"
  unfolding can_def
proof
  fix g
  obtain g1 where g1: "(p1, s1, g1) \<in> set (rmatch ic r1 (p, s, g))"
    using assms(1) unfolding can_def by blast
  obtain g2 where g2: "(p2, s2, g2) \<in> set (rmatch ic r2 (p1, s1, g1))"
    using assms(2) unfolding can_def by blast
  have "(p2, s2, g2) \<in> set (rmatch ic (Then r1 r2) (p, s, g))"
    using g1 g2 by auto
  then show "\<exists>g'. (p2, s2, g') \<in> set (rmatch ic (Then r1 r2) (p, s, g))" ..
qed

lemma can_Or1: "can ic r1 p s p' s' \<Longrightarrow> can ic (Or r1 r2) p s p' s'"
  unfolding can_def by (metis UnCI rmatch.simps(7) set_append)

lemma can_Or2: "can ic r2 p s p' s' \<Longrightarrow> can ic (Or r1 r2) p s p' s'"
  unfolding can_def by (metis UnCI rmatch.simps(7) set_append)

lemma can_WordBoundary:
  "word_at p \<noteq> word_at (next_char s) \<Longrightarrow> can ic WordBoundary p s p s"
  by (simp add: can_def)

lemma can_Group:
  assumes "can ic r p s p' s'"
  shows "can ic (Group n r) p s p' s'"
  unfolding can_def
proof
  fix g
  obtain g' where "(p', s', g') \<in> set (rmatch ic r (p, s, g))"
    using assms unfolding can_def by blast
  then have "(p', s', (n, take (length s - length s') s) # g')
               \<in> set (rmatch ic (Group n r) (p, s, g))"
    by force
  then show "\<exists>g'. (p', s', g') \<in> set (rmatch ic (Group n r) (p, s, g))" ..
qed

lemma star_ends_self: "(p, s) \<in> set (star_ends cc p s)"
  by (cases s) simp_all

lemma star_ends_run:
  "\<forall>c \<in> set m. in_class cc c \<Longrightarrow> (last_char p m, s) \<in> set (star_ends cc p (m @ s))"
proof (induction m arbitrary: p)
  case Nil
  show ?case by (simp add: last_char_Nil star_ends_self)
next
  case (Cons c cs)
  then have "(last_char (Some c) cs, s) \<in> set (star_ends cc (Some c) (cs @ s))"
    by simp
  then show ?case using Cons.prems by (simp add: last_char_Cons)
qed

lemma can_Star:
  "\<forall>c \<in> set m. in_class cc c \<Longrightarrow> can ic (Star cc) p (m @ s) (last_char p m) s"
  unfolding can_def using star_ends_run [of m cc p s] by force

lemma can_str:
  "ci_eq x lit \<Longrightarrow> can True (str lit) p (x @ s) (last_char p x) s"
proof (induction lit arbitrary: x p)
  case Nil
  then show ?case by (simp add: ci_eq_def str_def can_Eps last_char_Nil)
next
  case (Cons a as)
  then obtain c cs where x: "x = c # cs" and c: "py_lower c = py_lower a" and cs: "ci_eq cs as"
    by (cases x) (auto simp: ci_eq_def)
  have "can True (Lit a) p (c # cs @ s) (Some c) (cs @ s)"
    using c by (simp add: can_Lit)
  moreover have "can True (str as) (Some c) (cs @ s) (last_char (Some c) cs) s"
    using cs by (rule Cons.IH)
  ultimately have "can True (Then (Lit a) (str as)) p (c # cs @ s) (last_char (Some c) cs) s"
    by (rule can_Then)
  then show ?case by (simp add: x str_def last_char_Cons)
qed

lemma search_from_found:
  "rmatch ic r (last_char p a, b, []) \<noteq> [] \<Longrightarrow> search_from ic r p (a @ b) \<noteq> None"
proof (induction a arbitrary: p)
  case Nil
  then show ?case by (cases b) (auto simp: last_char_Nil split: list.splits)
next
  case (Cons c cs)
  then have "search_from ic r (Some c) (cs @ b) \<noteq> None"
    by (simp add: last_char_Cons)
  then show ?case by (simp split: list.splits)
qed

lemma can_search:
  assumes "can ic r (last_char None a) b p' s'"
  shows "re_search ic r (a @ b) \<noteq> None"
proof -
  obtain g' where "(p', s', g') \<in> set (rmatch ic r (last_char None a, b, []))"
    using assms unfolding can_def by blast
  then have "rmatch ic r (last_char None a, b, []) \<noteq> []"
    by auto
  then show ?thesis unfolding re_search_def by (rule search_from_found)
qed


lemma py_lower_word:
  assumes "py_lower c = l" and "is_word l"
  shows "is_word c"
proof -
  define n where "n = char_code c"
  show ?thesis
  proof (cases "(65 \<le> n \<and> n \<le> 90) \<or> (192 \<le> n \<and> n \<le> 222 \<and> n \<noteq> 215)")
    case True
    then have "(65 \<le> n \<and> n \<le> 90) \<or> (192 \<le> n \<and> n \<noteq> 215 \<and> n \<noteq> 247)"
      by arith
    then show ?thesis
      unfolding is_word_def Let_def n_def [symmetric] by blast
  next
    case False
    have "py_lower c = c"
      unfolding py_lower_def Let_def n_def [symmetric] by (simp only: False if_False)
    then show ?thesis using assms by simp
  qed
qed

lemma ctrl_letters_word:
  "is_word (py_lower CHR ''D'')" "is_word (py_lower CHR ''O'')" "is_word (py_lower CHR ''S'')"
  by code_simp+

lemma ctrl_frame_chars:
  assumes "ci_eq w ''DIO'' \<or> ci_eq w ''DAO'' \<or> ci_eq w ''DIS''"
  shows "w \<noteq> [] \<and> is_word (hd w) \<and> is_word (last w)"
proof -
  obtain c1 c2 c3 where w: "w = [c1, c2, c3]"
    and c1: "py_lower c1 = py_lower CHR ''D''"
    and c3: "py_lower c3 = py_lower CHR ''O'' \<or> py_lower c3 = py_lower CHR ''S''"
    using assms by (auto simp: ci_eq_def map_eq_Cons_conv)
  have "is_word c1"
    using c1 ctrl_letters_word(1) by (rule py_lower_word)
  moreover have "is_word c3"
    using c3 ctrl_letters_word(2,3) py_lower_word by blast
  ultimately show ?thesis by (simp add: w)
qed


lemma seqs_Cons: "seqs (r # rs) = Then r (seqs rs)"
  by (simp add: seqs_def)

lemma seqs_Nil: "seqs [] = Eps"
  by (simp add: seqs_def)

lemma next_char_append: "w \<noteq> [] \<Longrightarrow> next_char (w @ b) = Some (hd w)"
  by (cases w) simp_all

lemma can_frame_name:
  assumes "ci_eq w ''DIO'' \<or> ci_eq w ''DAO'' \<or> ci_eq w ''DIS''"
  shows "can True (Or (str ''DIO'') (Or (str ''DAO'') (str ''DIS''))) p (w @ s) (last_char p w) s"
  using assms by (auto intro: can_Or1 can_Or2 can_str)

lemma can_icmpv6_branch:
  assumes x: "ci_eq x ''icmpv6''" and m: "NL \<notin> set m"
    and y: "ci_eq y ''rpl'' \<or> ci_eq y ''155''"
  shows "can True (seqs [str ''icmpv6'', Star AnyChar, Group 4 (Or (str ''rpl'') (str ''155''))])
           p (x @ m @ y @ b) (last_char (last_char (last_char p x) m) y) b"
proof -
  let ?p1 = "last_char p x"
  let ?p2 = "last_char ?p1 m"
  let ?p3 = "last_char ?p2 y"
  have 1: "can True (str ''icmpv6'') p (x @ m @ y @ b) ?p1 (m @ y @ b)"
    using x by (rule can_str)
  have "\<forall>c \<in> set m. in_class AnyChar c" using m by auto
  then have 2: "can True (Star AnyChar) ?p1 (m @ y @ b) ?p2 (y @ b)"
    by (rule can_Star)
  have "can True (Or (str ''rpl'') (str ''155'')) ?p2 (y @ b) ?p3 b"
    using y by (auto intro: can_Or1 can_Or2 can_str)
  then have 3: "can True (Group 4 (Or (str ''rpl'') (str ''155''))) ?p2 (y @ b) ?p3 b"
    by (rule can_Group)
  have 4: "can True Eps ?p3 b ?p3 b" by (rule can_Eps)
  show ?thesis
    unfolding seqs_Cons seqs_Nil
    by (rule can_Then [OF 1 can_Then [OF 2 can_Then [OF 3 4]]])
qed

lemma can_frame_branch:
  assumes w: "ci_eq w ''DIO'' \<or> ci_eq w ''DAO'' \<or> ci_eq w ''DIS''"
    and before: "\<not> word_at p" and after: "\<not> word_at (next_char b)"
  shows "can True (seqs [WordBoundary,
                         Group 3 (Or (str ''DIO'') (Or (str ''DAO'') (str ''DIS''))),
                         WordBoundary])
           p (w @ b) (last_char p w) b"
proof -
  have ne: "w \<noteq> []" and h: "is_word (hd w)" and l: "is_word (last w)"
    using ctrl_frame_chars [OF w] by simp_all
  have "word_at p \<noteq> word_at (next_char (w @ b))"
    using before h by (simp add: next_char_append [OF ne] word_at_def)
  then have 1: "can True WordBoundary p (w @ b) p (w @ b)"
    by (rule can_WordBoundary)
  have 2: "can True (Group 3 (Or (str ''DIO'') (Or (str ''DAO'') (str ''DIS''))))
             p (w @ b) (last_char p w) b"
    using can_frame_name [OF w] by (rule can_Group)
  have "word_at (last_char p w) \<noteq> word_at (next_char b)"
    using after l ne by (simp add: last_char_def word_at_def)
  then have 3: "can True WordBoundary (last_char p w) b (last_char p w) b"
    by (rule can_WordBoundary)
  have 4: "can True Eps (last_char p w) b (last_char p w) b" by (rule can_Eps)
  show ?thesis
    unfolding seqs_Cons seqs_Nil
    by (rule can_Then [OF 1 can_Then [OF 2 can_Then [OF 3 4]]])
qed

lemma ctrl_match_icmpv6:
  assumes "ci_eq x ''icmpv6''" and "NL \<notin> set m" and "ci_eq y ''rpl'' \<or> ci_eq y ''155''"
  shows "ctrl_match (a @ x @ m @ y @ b)"
proof -
  have "can True RPL_CTRL_PATTERN (last_char None a) (x @ m @ y @ b)
          (last_char (last_char (last_char (last_char None a) x) m) y) b"
    unfolding RPL_CTRL_PATTERN_def
    by (intro can_Group can_Or2 can_icmpv6_branch assms)
  then show ?thesis unfolding ctrl_match_def by (rule can_search)
qed

lemma ctrl_match_frame:
  assumes "ci_eq w ''DIO'' \<or> ci_eq w ''DAO'' \<or> ci_eq w ''DIS''"
    and "\<not> word_at (last_char None a)" and "\<not> word_at (next_char b)"
  shows "ctrl_match (a @ w @ b)"
proof -
  have "can True RPL_CTRL_PATTERN (last_char None a) (w @ b) (last_char (last_char None a) w) b"
    unfolding RPL_CTRL_PATTERN_def
    by (rule can_Group, rule can_Or2, rule can_Or1, rule can_frame_branch) (rule assms)+
  then show ?thesis unfolding ctrl_match_def by (rule can_search)
qed

text \<open>
  C6 (as amended). Every log line in which icmpv6 is followed, later on the same line
  (no newline in between), by rpl or by 155, letters compared without regard to case,
  increments \<open>ctrl_count\<close>; so does every line with an occurrence of DIO, DAO or DIS
  (in any case) that has no word character directly before or after it. The order
  matters: rpl or 155 standing only before icmpv6 does not count.
\<close>

theorem ctrl_pattern_coverage:
  "(ci_eq x ''icmpv6'' \<and> NL \<notin> set m \<and> (ci_eq y ''rpl'' \<or> ci_eq y ''155'') \<longrightarrow>
      ctrl_match (a @ x @ m @ y @ b)
      \<and> ctrl_count (log_step st (a @ x @ m @ y @ b)) = ctrl_count st + 1)
   \<and> ((ci_eq w ''DIO'' \<or> ci_eq w ''DAO'' \<or> ci_eq w ''DIS'')
        \<and> \<not> word_at (last_char None a') \<and> \<not> word_at (next_char b') \<longrightarrow>
      ctrl_match (a' @ w @ b')
      \<and> ctrl_count (log_step st (a' @ w @ b')) = ctrl_count st + 1)"
  using ctrl_match_icmpv6 [of x m y a b] ctrl_match_frame [of w a' b']
  by (simp add: log_step_ctrl_count)

theorem ctrl_pattern_coverage_witness:
  "ctrl_match (log_line ''00:01 ID:2 ICMPv6 type 155 seen'')
   \<and> ctrl_count (log_step log_init (log_line ''00:01 ID:2 ICMPv6 type 155 seen'')) = 1
   \<and> ctrl_match (log_line ''got dio!'')
   \<and> ctrl_count (log_step log_init (log_line ''got dio!'')) = 1"
proof -
  have a: "ci_eq ''ICMPv6'' ''icmpv6''" by code_simp
  have b: "NL \<notin> set '' type ''" by code_simp
  have c: "ci_eq ''155'' ''155''" by code_simp
  have d: "ci_eq ''dio'' ''DIO''" by code_simp
  have e: "\<not> word_at (last_char None ''got '')" by code_simp
  have f: "\<not> word_at (next_char (log_line ''!''))" by code_simp
  show ?thesis
    using ctrl_pattern_coverage [of "''ICMPv6''" "'' type ''" "''155''" "''00:01 ID:2 ''"
        "log_line '' seen''" log_init "''dio''" "''got ''" "log_line ''!''"] a b c d e f
    by (simp add: log_line_def log_init_def)
qed

text \<open>
  C6 as stated fails: a line with rpl, or 155, before icmpv6 and nothing else of the
  pattern is not counted.
\<close>

theorem ctrl_pattern_order_matters:
  "\<not> ctrl_match (log_line ''rpl over icmpv6'')
   \<and> ctrl_count (log_scan [log_line ''rpl over icmpv6'']) = 0
   \<and> \<not> ctrl_match (log_line ''type 155 in icmpv6'')"
  by code_simp

end
